theory Spec2Isabelle
  imports Complex_Main
begin

section \<open>Data model\<close>

text \<open>
  The analysers of \<^verbatim>\<open>f1_data_fetcher.py\<close> work on numeric sample arrays and on
  the rows of the provider's lap table. Sample values and lap times are Python
  floats; they are modelled as exact rationals. A missing table cell (NaN, NaT)
  is \<open>None\<close>.
\<close>

datatype py_error = IndexError | TypeError | ValueError

record lap_row =
  Driver :: string
  LapNumber :: int
  LapTime :: "rat option"
  Compound :: "string option"

text \<open>\<^verbatim>\<open>np.mean\<close> of a sequence. Every call site of the source passes a non-empty one.\<close>

definition np_mean :: "rat list \<Rightarrow> rat" where
  "np_mean xs = sum_list xs / of_nat (length xs)"

section \<open>Tire degradation: \<^verbatim>\<open>get_tire_degradation\<close>, \<^verbatim>\<open>calculate_degradation\<close>\<close>

record stint_lap =
  lapNumber :: int
  time :: rat

record stint =
  compound :: "string option"
  laps :: "stint_lap list"
  avgLapTime :: rat
  degradation :: rat

text \<open>\<^verbatim>\<open>str.upper\<close> on the ASCII letters.\<close>

definition upper_char :: "char \<Rightarrow> char" where
  "upper_char c =
     (let n = (of_char c :: nat) in if 97 \<le> n \<and> n \<le> 122 then char_of (n - 32) else c)"

definition upper :: "string \<Rightarrow> string" where
  "upper s = map upper_char s"

text \<open>
  \<^verbatim>\<open>times[-1] - times[0]\<close> is read only when \<^verbatim>\<open>len(stint_laps) >= 3\<close>, so
  \<open>last\<close> and \<open>hd\<close> are applied to a non-empty list.
\<close>

definition calculate_degradation :: "stint_lap list \<Rightarrow> rat" where
  "calculate_degradation stint_laps =
     (if length stint_laps < 3 then 0
      else (let times = map time stint_laps
            in (last times - hd times) / of_nat (length times)))"

definition make_stint :: "string option \<Rightarrow> stint_lap list \<Rightarrow> stint" where
  "make_stint current_compound stint_laps =
     \<lparr>compound = current_compound,
      laps = stint_laps,
      avgLapTime = np_mean (map time stint_laps),
      degradation = calculate_degradation stint_laps\<rparr>"

text \<open>
  The body of \<^verbatim>\<open>for _, lap in driver_laps.iterrows()\<close>, threading the three
  variables \<^verbatim>\<open>tire_stints\<close>, \<^verbatim>\<open>current_compound\<close> and \<^verbatim>\<open>stint_laps\<close>.
\<close>

fun stint_loop ::
  "lap_row list \<Rightarrow> stint list \<Rightarrow> string option \<Rightarrow> stint_lap list
     \<Rightarrow> stint list \<times> string option \<times> stint_lap list" where
  "stint_loop [] tire_stints current_compound stint_laps =
     (tire_stints, current_compound, stint_laps)"
| "stint_loop (lap # rest) tire_stints current_compound stint_laps =
     (case (Compound lap, LapTime lap) of
        (Some c, Some t) \<Rightarrow>
          (let compound = upper c;
               new_lap = \<lparr>lapNumber = LapNumber lap, time = t\<rparr>
           in if Some compound \<noteq> current_compound then
                stint_loop rest
                  (if stint_laps \<noteq> []
                   then tire_stints @ [make_stint current_compound stint_laps]
                   else tire_stints)
                  (Some compound) [new_lap]
              else stint_loop rest tire_stints current_compound (stint_laps @ [new_lap]))
      | _ \<Rightarrow> stint_loop rest tire_stints current_compound stint_laps)"

definition get_tire_degradation :: "lap_row list \<Rightarrow> string \<Rightarrow> stint list" where
  "get_tire_degradation session_laps driver =
     (let driver_laps = filter (\<lambda>l. Driver l = driver) session_laps
      in case stint_loop driver_laps [] None [] of
           (tire_stints, current_compound, stint_laps) \<Rightarrow>
             if stint_laps \<noteq> []
             then tire_stints @ [make_stint current_compound stint_laps]
             else tire_stints)"

text \<open>
  The specification's wording, for comparison: the laps that carry both a
  compound and a lap time are retained, and a stint is a maximal run of
  consecutive retained laps on one compound.
\<close>

definition retained_laps :: "lap_row list \<Rightarrow> (string \<times> stint_lap) list" where
  "retained_laps ls =
     concat (map (\<lambda>l. case (Compound l, LapTime l) of
                         (Some c, Some t) \<Rightarrow> [(upper c, \<lparr>lapNumber = LapNumber l, time = t\<rparr>)]
                       | _ \<Rightarrow> []) ls)"

function maximal_runs :: "('k \<times> 'v) list \<Rightarrow> ('k \<times> 'v list) list" where
  "maximal_runs [] = []"
| "maximal_runs ((k, v) # xs) =
     (k, v # map snd (takeWhile (\<lambda>p. fst p = k) xs))
       # maximal_runs (dropWhile (\<lambda>p. fst p = k) xs)"
  by pat_completeness auto
termination
  by (relation "measure length") (auto simp: length_dropWhile_le less_Suc_eq_le)

definition spec_degradation :: "stint_lap list \<Rightarrow> rat" where
  "spec_degradation ls =
     (if 3 \<le> length ls then (time (last ls) - time (hd ls)) / of_nat (length ls) else 0)"

definition spec_stint :: "string \<times> stint_lap list \<Rightarrow> stint" where
  "spec_stint r =
     \<lparr>compound = Some (fst r), laps = snd r,
      avgLapTime = sum_list (map time (snd r)) / of_nat (length (snd r)),
      degradation = spec_degradation (snd r)\<rparr>"

text \<open>What the function returns from the loop's final state: the last stint is appended.\<close>

definition flush :: "stint list \<times> string option \<times> stint_lap list \<Rightarrow> stint list" where
  "flush st = (case st of (ts, cur, sl) \<Rightarrow> if sl \<noteq> [] then ts @ [make_stint cur sl] else ts)"

section \<open>Race pace: \<^verbatim>\<open>get_race_pace\<close>\<close>

record pace_entry =
  pace_driver :: string
  avgPace :: rat
  medianPace :: rat
  bestPace :: rat
  totalLaps :: nat

text \<open>
  The aggregates of the lap-time column (\<^verbatim>\<open>mean\<close>, \<^verbatim>\<open>median\<close>, \<^verbatim>\<open>min\<close> of a pandas
  series); the source calls them on a non-empty column only.
\<close>

definition median :: "rat list \<Rightarrow> rat" where
  "median xs =
     (let s = sort xs; n = length s
      in if odd n then s ! (n div 2) else (s ! (n div 2 - 1) + s ! (n div 2)) / 2)"

definition np_min :: "rat list \<Rightarrow> rat" where
  "np_min xs = fold min (tl xs) (hd xs)"

definition np_max :: "rat list \<Rightarrow> rat" where
  "np_max xs = fold max (tl xs) (hd xs)"

text \<open>\<^verbatim>\<open>dropna(subset=['LapTime'])\<close>: the rows that have a lap time.\<close>

definition dropna_LapTime :: "lap_row list \<Rightarrow> lap_row list" where
  "dropna_LapTime ls = filter (\<lambda>l. LapTime l \<noteq> None) ls"

fun pace_loop :: "lap_row list \<Rightarrow> string list \<Rightarrow> pace_entry list \<Rightarrow> pace_entry list" where
  "pace_loop session_laps [] pace_data = pace_data"
| "pace_loop session_laps (driver # rest) pace_data =
     (let driver_laps = filter (\<lambda>l. Driver l = driver) session_laps;
          valid_laps = dropna_LapTime driver_laps;
          times = map (\<lambda>l. the (LapTime l)) valid_laps
      in if length valid_laps > 0 then
           pace_loop session_laps rest
             (pace_data @
              [\<lparr>pace_driver = driver, avgPace = np_mean times, medianPace = median times,
                bestPace = np_min times, totalLaps = length valid_laps\<rparr>])
         else pace_loop session_laps rest pace_data)"

definition get_race_pace :: "lap_row list \<Rightarrow> string list \<Rightarrow> pace_entry list" where
  "get_race_pace session_laps drivers = pace_loop session_laps drivers []"

section \<open>Fuel effect: \<^verbatim>\<open>get_fuel_effect\<close>\<close>

text \<open>
  The two dictionaries the function can return have different keys; a key that
  is absent from the returned dictionary is \<open>None\<close>.
\<close>

record fuel_effect_result =
  fuel_driver :: string
  fuelEffect :: "rat option"
  fuelEffectPerLap :: "rat option"
  totalFuelEffect :: "rat option"

text \<open>
  \<^verbatim>\<open>np.polyfit(lap_numbers, lap_times, 1)\<close> is the numerical library's first-degree
  least-squares fit. It is a parameter \<open>polyfit1\<close> of the model, returning the two
  coefficients, highest power first, so that \<^verbatim>\<open>coeffs[0]\<close> is the first component.
\<close>

definition get_fuel_effect ::
  "(rat list \<Rightarrow> rat list \<Rightarrow> rat \<times> rat) \<Rightarrow> lap_row list \<Rightarrow> string \<Rightarrow> fuel_effect_result" where
  "get_fuel_effect polyfit1 session_laps driver =
     (let driver_laps = filter (\<lambda>l. Driver l = driver) session_laps;
          valid_laps = dropna_LapTime driver_laps
      in if length valid_laps < 5 then
           \<lparr>fuel_driver = driver, fuelEffect = Some 0,
            fuelEffectPerLap = None, totalFuelEffect = None\<rparr>
         else
           (let lap_times = map (\<lambda>l. the (LapTime l)) valid_laps;
                lap_numbers = map (\<lambda>l. of_int (LapNumber l)) valid_laps;
                fuel_effect_per_lap =
                  (if length lap_times > 1 then fst (polyfit1 lap_numbers lap_times) else 0)
            in \<lparr>fuel_driver = driver, fuelEffect = None,
                fuelEffectPerLap = Some fuel_effect_per_lap,
                totalFuelEffect = Some (fuel_effect_per_lap * of_nat (length lap_times))\<rparr>))"

text \<open>
  The specification's wording, for comparison: all valid (lap number, lap time)
  pairs of one driver, in lap order.
\<close>

definition valid_pairs :: "lap_row list \<Rightarrow> string \<Rightarrow> (rat \<times> rat) list" where
  "valid_pairs session_laps driver =
     concat (map (\<lambda>l. if Driver l = driver
                        then (case LapTime l of Some t \<Rightarrow> [(of_int (LapNumber l), t)] | None \<Rightarrow> [])
                        else []) session_laps)"

text \<open>
  The exact least-squares line through the points, as a concrete instance of
  \<open>polyfit1\<close>: the slope and intercept that minimise the sum of squared residuals.
\<close>

definition least_squares_line :: "rat list \<Rightarrow> rat list \<Rightarrow> rat \<times> rat" where
  "least_squares_line xs ys =
     (let n = of_nat (length xs);
          sx = sum_list xs; sy = sum_list ys;
          sxx = sum_list (map (\<lambda>x. x * x) xs);
          sxy = sum_list (map2 (*) xs ys);
          slope = (n * sxy - sx * sy) / (n * sxx - sx * sx)
      in (slope, (sy - slope * sx) / n))"

section \<open>Telemetry channels\<close>

text \<open>
  A lap's telemetry table; a column the provider did not deliver is \<open>None\<close>.
  The source reads a column as
  \<^verbatim>\<open>telemetry['Speed'].values if 'Speed' in telemetry.columns else []\<close>:
  a numpy array when the column is there, the empty Python list otherwise.
\<close>

record telemetry =
  Speed :: "rat list option"
  Distance :: "rat list option"
  Throttle :: "rat list option"
  Brake :: "rat list option"

datatype series = NdArray "rat list" | EmptyPyList

fun items :: "series \<Rightarrow> rat list" where
  "items (NdArray xs) = xs"
| "items EmptyPyList = []"

definition len :: "series \<Rightarrow> nat" where
  "len s = length (items s)"

definition column :: "rat list option \<Rightarrow> series" where
  "column c = (case c of Some xs \<Rightarrow> NdArray xs | None \<Rightarrow> EmptyPyList)"

text \<open>\<^verbatim>\<open>s[i]\<close> for an index \<open>i \<ge> 0\<close>: out of range raises IndexError.\<close>

definition getitem :: "series \<Rightarrow> nat \<Rightarrow> py_error + rat" where
  "getitem s i = (if i < len s then Inr (items s ! i) else Inl IndexError)"

text \<open>\<^verbatim>\<open>s[a:b]\<close> for \<open>0 \<le> a\<close>: slicing clips at the end and never raises.\<close>

definition slice :: "series \<Rightarrow> nat \<Rightarrow> nat \<Rightarrow> rat list" where
  "slice s a b = take (b - a) (drop a (items s))"

section \<open>Corner detector: \<^verbatim>\<open>get_corner_analysis\<close>\<close>

record corner =
  cornerNumber :: nat
  brakePoint_distance :: rat
  brakePoint_speed :: rat
  brakePoint_brakeForce :: rat
  apex_distance :: rat
  apex_minSpeed :: rat
  exit_distance :: rat
  exit_speed :: rat
  exit_throttle :: rat
  speedDelta :: rat
  corner_type :: string

text \<open>
  \<^verbatim>\<open>for j in range(max(0, i-35), i): if brake[j] > 25: brake_point_idx = j; break\<close>.
  The third argument is the value \<^verbatim>\<open>brake_point_idx\<close> holds before the loop.
\<close>

fun brake_point_scan :: "series \<Rightarrow> nat list \<Rightarrow> nat \<Rightarrow> py_error + nat" where
  "brake_point_scan brake [] brake_point_idx = Inr brake_point_idx"
| "brake_point_scan brake (j # js) brake_point_idx =
     (case getitem brake j of
        Inl e \<Rightarrow> Inl e
      | Inr b \<Rightarrow> if b > 25 then Inr j else brake_point_scan brake js brake_point_idx)"

text \<open>
  \<^verbatim>\<open>for j in range(i, min(i + 40, len(speed))): if speed[j] < min_speed: ...\<close>.
  The range stays below \<^verbatim>\<open>len(speed)\<close>, so \<^verbatim>\<open>speed[j]\<close> cannot raise.
\<close>

fun apex_scan :: "rat list \<Rightarrow> nat list \<Rightarrow> rat \<Rightarrow> nat \<Rightarrow> nat" where
  "apex_scan speed [] min_speed apex_idx = apex_idx"
| "apex_scan speed (j # js) min_speed apex_idx =
     (if speed ! j < min_speed then apex_scan speed js (speed ! j) j
      else apex_scan speed js min_speed apex_idx)"

text \<open>
  \<^verbatim>\<open>for j in range(apex_idx, min(apex_idx + 40, len(speed))):\<close>
  \<^verbatim>\<open>    if throttle[j] > 60 and speed[j] > speed[apex_idx] + 15: exit_idx = j; break\<close>.
  \<^verbatim>\<open>throttle[j]\<close> is read first and raises when the throttle channel is shorter.
\<close>

fun exit_scan :: "series \<Rightarrow> rat list \<Rightarrow> nat list \<Rightarrow> nat \<Rightarrow> py_error + nat" where
  "exit_scan throttle speed [] apex_idx = Inr apex_idx"
| "exit_scan throttle speed (j # js) apex_idx =
     (case getitem throttle j of
        Inl e \<Rightarrow> Inl e
      | Inr th \<Rightarrow>
          if th > 60 \<and> speed ! j > speed ! apex_idx + 15 then Inr j
          else exit_scan throttle speed js apex_idx)"

text \<open>The dictionary \<^verbatim>\<open>corner_data\<close>; its entries are evaluated in the order written.\<close>

definition corner_data ::
  "series \<Rightarrow> series \<Rightarrow> series \<Rightarrow> series \<Rightarrow> nat \<Rightarrow> nat \<Rightarrow> nat \<Rightarrow> nat \<Rightarrow> rat
     \<Rightarrow> py_error + corner" where
  "corner_data speed distance brake throttle n brake_point_idx apex_idx exit_idx speed_delta =
     (case getitem distance brake_point_idx of Inl e \<Rightarrow> Inl e | Inr bd \<Rightarrow>
      case getitem speed brake_point_idx of Inl e \<Rightarrow> Inl e | Inr bs \<Rightarrow>
      case getitem brake brake_point_idx of Inl e \<Rightarrow> Inl e | Inr bf \<Rightarrow>
      case getitem distance apex_idx of Inl e \<Rightarrow> Inl e | Inr ad \<Rightarrow>
      case getitem speed apex_idx of Inl e \<Rightarrow> Inl e | Inr as \<Rightarrow>
      case getitem distance exit_idx of Inl e \<Rightarrow> Inl e | Inr ed \<Rightarrow>
      case getitem speed exit_idx of Inl e \<Rightarrow> Inl e | Inr es \<Rightarrow>
      case getitem throttle exit_idx of Inl e \<Rightarrow> Inl e | Inr et \<Rightarrow>
        Inr \<lparr>cornerNumber = n + 1,
             brakePoint_distance = bd, brakePoint_speed = bs, brakePoint_brakeForce = bf,
             apex_distance = ad, apex_minSpeed = as,
             exit_distance = ed, exit_speed = es, exit_throttle = et,
             speedDelta = speed_delta,
             corner_type = (if as < 100 then ''slow'' else if as < 180 then ''medium''
                            else ''fast'')\<rparr>)"

text \<open>
  One pass through the body of \<^verbatim>\<open>while i < len(speed) - 40\<close>, from the state
  (\<^verbatim>\<open>i\<close>, \<^verbatim>\<open>last_corner_dist\<close>, \<^verbatim>\<open>corners\<close>) to the next one. The loop condition
  holds when the body runs, so \<^verbatim>\<open>speed[i]\<close> is in range; the brake-point and apex
  indices lie below \<^verbatim>\<open>len(speed)\<close> as well.
\<close>

definition corner_step ::
  "series \<Rightarrow> series \<Rightarrow> series \<Rightarrow> series \<Rightarrow> nat \<Rightarrow> rat \<Rightarrow> corner list
     \<Rightarrow> py_error + (nat \<times> rat \<times> corner list)" where
  "corner_step speed distance brake throttle i last_corner_dist corners =
     (if i > 20 then
        (let speed_before = np_mean (slice speed (i - 10) i);
             speed_at = items speed ! i;
             speed_drop = speed_before - speed_at
         in if speed_drop > 40 then
              (case getitem distance i of
                 Inl e \<Rightarrow> Inl e
               | Inr d \<Rightarrow>
                   if d - last_corner_dist > 150 then
                     (case brake_point_scan brake [i - 35 ..< i] i of
                        Inl e \<Rightarrow> Inl e
                      | Inr brake_point_idx \<Rightarrow>
                          (let apex_idx = apex_scan (items speed)
                                 [i ..< min (i + 40) (len speed)] (items speed ! i) i
                           in case exit_scan throttle (items speed)
                                     [apex_idx ..< min (apex_idx + 40) (len speed)] apex_idx of
                                Inl e \<Rightarrow> Inl e
                              | Inr exit_idx \<Rightarrow>
                                  (let speed_delta =
                                         items speed ! brake_point_idx - items speed ! apex_idx
                                   in if speed_delta > 25 then
                                        (case corner_data speed distance brake throttle
                                                (length corners) brake_point_idx apex_idx
                                                exit_idx speed_delta of
                                           Inl e \<Rightarrow> Inl e
                                         | Inr c \<Rightarrow>
                                             Inr (exit_idx + 20, items distance ! apex_idx,
                                                  corners @ [c]))
                                      else Inr (i + 5, last_corner_dist, corners))))
                   else Inr (i + 5, last_corner_dist, corners))
            else Inr (i + 5, last_corner_dist, corners))
      else Inr (i + 1, last_corner_dist, corners))"

lemma apex_scan_ge: "\<forall>j\<in>set js. i \<le> j \<Longrightarrow> i \<le> a \<Longrightarrow> i \<le> apex_scan sp js m a"
  by (induction js arbitrary: m a) auto

lemma exit_scan_ge: "exit_scan th sp js a = Inr e \<Longrightarrow> \<forall>j\<in>set js. a \<le> j \<Longrightarrow> a \<le> e"
  by (induction js) (auto split: sum.splits if_splits)

lemma corner_step_advances:
  assumes "corner_step speed distance brake throttle i last_corner_dist corners = Inr (i', l', cs')"
  shows "i < i'"
proof -
  let ?a = "apex_scan (items speed) [i ..< min (i + 40) (len speed)] (items speed ! i) i"
  have a: "i \<le> ?a" by (rule apex_scan_ge) auto
  have e: "a \<le> e" if "exit_scan throttle (items speed) [a ..< n] a = Inr e" for a e n
    using exit_scan_ge [OF that] by auto
  show ?thesis
    using assms a
    by (auto simp: corner_step_def Let_def split: if_splits sum.splits dest!: e)
qed

function corner_loop ::
  "series \<Rightarrow> series \<Rightarrow> series \<Rightarrow> series \<Rightarrow> nat \<Rightarrow> rat \<Rightarrow> corner list
     \<Rightarrow> py_error + corner list" where
  "corner_loop speed distance brake throttle i last_corner_dist corners =
     (if i + 40 < len speed then
        (case corner_step speed distance brake throttle i last_corner_dist corners of
           Inl e \<Rightarrow> Inl e
         | Inr (i', last_corner_dist', corners') \<Rightarrow>
             corner_loop speed distance brake throttle i' last_corner_dist' corners')
      else Inr corners)"
  by pat_completeness auto
termination
  by (relation "measure (\<lambda>(speed, distance, brake, throttle, i, l, cs). len speed - i)")
     (auto dest: corner_step_advances)

declare corner_loop.simps [simp del]

definition get_corner_analysis :: "telemetry \<Rightarrow> py_error + corner list" where
  "get_corner_analysis tel =
     (let speed = column (Speed tel);
          distance = column (Distance tel);
          brake = column (Brake tel);
          throttle = column (Throttle tel)
      in corner_loop speed distance brake throttle 30 (- 150) [])"

text \<open>
  The specification's first wording, for comparison: the last index in \<open>[i-35, i)\<close> whose brake
  value exceeds 25, and \<open>i\<close> itself when there is none.
\<close>

definition last_brake_index :: "rat list \<Rightarrow> nat \<Rightarrow> nat" where
  "last_brake_index brake i =
     (case filter (\<lambda>j. brake ! j > 25) [i - 35 ..< i] of [] \<Rightarrow> i | js \<Rightarrow> last js)"

text \<open>
  The property the detector's state keeps: the corners collected so far are
  numbered 1, 2, ... in order, their apex distances increase strictly, and none
  exceeds \<^verbatim>\<open>last_corner_dist\<close>.
\<close>

definition corners_ok :: "rat \<Rightarrow> corner list \<Rightarrow> bool" where
  "corners_ok l cs \<longleftrightarrow>
     (\<forall>c\<in>set cs. apex_distance c \<le> l) \<and>
     sorted_wrt (<) (map apex_distance cs) \<and>
     map cornerNumber cs = [1 ..< Suc (length cs)]"

section \<open>Brake-zone detector: \<^verbatim>\<open>get_brake_analysis\<close>\<close>

record brake_zone =
  startDistance :: rat
  endDistance :: rat
  peakBrakeForce :: rat
  avgBrakeForce :: rat
  speedLoss :: rat
  duration :: rat

record brake_analysis =
  brakeZones :: "brake_zone list"
  totalBrakeTimePercent :: rat
  overallAvgBrakeForce :: rat

text \<open>
  The dictionary appended for a closed run \<^verbatim>\<open>brake[zone_start:i]\<close>. The two
  distance reads raise when the distance channel is shorter than the brake channel;
  \<^verbatim>\<open>speed[zone_start:i]\<close> is a slice and the read of its ends is guarded by its length.
  The branch is reached with \<open>i > zone_start\<close> only, so \<open>i - 1\<close> is not negative.
\<close>

definition zone_record :: "series \<Rightarrow> series \<Rightarrow> series \<Rightarrow> nat \<Rightarrow> nat \<Rightarrow> py_error + brake_zone" where
  "zone_record brake speed distance zone_start i =
     (let zone_data = slice brake zone_start i;
          speed_data = slice speed zone_start i
      in case getitem distance zone_start of Inl e \<Rightarrow> Inl e | Inr sd \<Rightarrow>
         case getitem distance (i - 1) of Inl e \<Rightarrow> Inl e | Inr ed \<Rightarrow>
           Inr \<lparr>startDistance = sd, endDistance = ed,
                peakBrakeForce = np_max zone_data,
                avgBrakeForce = np_mean zone_data,
                speedLoss = (if length speed_data > 0 then hd speed_data - last speed_data else 0),
                duration = of_nat (length zone_data) / 100\<rparr>)"

text \<open>
  \<^verbatim>\<open>for i in range(len(brake))\<close>, over the indices still to visit, with the
  variables \<^verbatim>\<open>brake_zones\<close>, \<^verbatim>\<open>in_brake_zone\<close> and \<^verbatim>\<open>zone_start\<close>.
\<close>

fun brake_loop ::
  "series \<Rightarrow> series \<Rightarrow> series \<Rightarrow> nat list \<Rightarrow> brake_zone list \<Rightarrow> bool \<Rightarrow> nat
     \<Rightarrow> py_error + brake_zone list" where
  "brake_loop brake speed distance [] brake_zones in_brake_zone zone_start = Inr brake_zones"
| "brake_loop brake speed distance (i # rest) brake_zones in_brake_zone zone_start =
     (if items brake ! i > 10 \<and> \<not> in_brake_zone then
        brake_loop brake speed distance rest brake_zones True i
      else if items brake ! i \<le> 10 \<and> in_brake_zone then
        (if length (slice brake zone_start i) > 5 then
           (case zone_record brake speed distance zone_start i of
              Inl e \<Rightarrow> Inl e
            | Inr z \<Rightarrow> brake_loop brake speed distance rest (brake_zones @ [z]) False zone_start)
         else brake_loop brake speed distance rest brake_zones False zone_start)
      else brake_loop brake speed distance rest brake_zones in_brake_zone zone_start)"

text \<open>
  After the loop, \<^verbatim>\<open>np.any(brake > 0)\<close> compares the channel with a number. On a
  numpy array this is elementwise; on the empty Python list that stands for a
  missing column, \<^verbatim>\<open>[] > 0\<close> raises TypeError.
\<close>

definition get_brake_analysis :: "telemetry \<Rightarrow> py_error + brake_analysis" where
  "get_brake_analysis tel =
     (let brake = column (Brake tel);
          speed = column (Speed tel);
          distance = column (Distance tel)
      in case brake_loop brake speed distance [0 ..< len brake] [] False 0 of
           Inl e \<Rightarrow> Inl e
         | Inr brake_zones \<Rightarrow>
             (let total_brake_time =
                    (if len brake > 0
                     then of_nat (length (filter (\<lambda>b. b > 0) (items brake)))
                            / of_nat (len brake) * 100
                     else 0)
              in case brake of
                   EmptyPyList \<Rightarrow> Inl TypeError
                 | NdArray bs \<Rightarrow>
                     Inr \<lparr>brakeZones = take 10 brake_zones,
                          totalBrakeTimePercent = total_brake_time,
                          overallAvgBrakeForce =
                            (if filter (\<lambda>b. b > 0) bs \<noteq> []
                             then np_mean (filter (\<lambda>b. b > 0) bs) else 0)\<rparr>))"

text \<open>
  The specification's wording, for comparison: a brake zone is a maximal
  contiguous run of samples with brake above 10. \<open>brake_runs\<close> lists the runs
  in scan order as pairs (start index, end index), the end exclusive;
  \<open>brake_runs_from k\<close> does so for a suffix that starts at index \<open>k\<close>.
\<close>

function brake_runs_from :: "nat \<Rightarrow> rat list \<Rightarrow> (nat \<times> nat) list" where
  "brake_runs_from k [] = []"
| "brake_runs_from k (x # xs) =
     (if x > 10 then
        (let n = length (takeWhile (\<lambda>y. y > 10) xs)
         in (k, k + 1 + n) # brake_runs_from (k + 1 + n) (dropWhile (\<lambda>y. y > 10) xs))
      else brake_runs_from (k + 1) xs)"
  by pat_completeness auto
termination
  by (relation "measure (\<lambda>(k, xs). length xs)") (auto simp: length_dropWhile_le less_Suc_eq_le)

definition brake_runs :: "rat list \<Rightarrow> (nat \<times> nat) list" where
  "brake_runs brake = brake_runs_from 0 brake"

text \<open>
  The same said directly: \<open>[s, e)\<close> is a maximal run when it is non-empty, every
  sample in it has brake above 10, and it can be extended on neither side.
\<close>

definition is_brake_run :: "rat list \<Rightarrow> nat \<Rightarrow> nat \<Rightarrow> bool" where
  "is_brake_run xs s e \<longleftrightarrow>
     s < e \<and> e \<le> length xs \<and> (\<forall>j. s \<le> j \<and> j < e \<longrightarrow> xs ! j > 10) \<and>
     (s = 0 \<or> xs ! (s - 1) \<le> 10) \<and> (e = length xs \<or> xs ! e \<le> 10)"

text \<open>The zone record of the run \<open>[s, e)\<close>, read off the three channels.\<close>

definition spec_zone :: "rat list \<Rightarrow> rat list \<Rightarrow> rat list \<Rightarrow> nat \<times> nat \<Rightarrow> brake_zone" where
  "spec_zone brake speed distance r =
     (let s = fst r; e = snd r;
          zone = take (e - s) (drop s brake);
          sp = take (e - s) (drop s speed)
      in \<lparr>startDistance = distance ! s, endDistance = distance ! (e - 1),
          peakBrakeForce = np_max zone, avgBrakeForce = np_mean zone,
          speedLoss = (if sp = [] then 0 else hd sp - last sp),
          duration = of_nat (e - s) / 100\<rparr>)"

text \<open>
  The runs the scan reports: those it closes, at a later sample with brake at
  most 10, and that are more than 5 samples long.
\<close>

definition reported_runs :: "rat list \<Rightarrow> (nat \<times> nat) list" where
  "reported_runs brake =
     filter (\<lambda>r. snd r - fst r > 5 \<and> snd r < length brake) (brake_runs brake)"

text \<open>
  The specification's wording, for comparison: only runs shorter than 5 samples
  are discarded, and the output is capped at the first 10.
\<close>

definition runs_of_at_least_five :: "rat list \<Rightarrow> (nat \<times> nat) list" where
  "runs_of_at_least_five brake = take 10 (filter (\<lambda>r. snd r - fst r \<ge> 5) (brake_runs brake))"

section \<open>Throttle analyser: \<^verbatim>\<open>get_throttle_trace\<close>\<close>

record throttle_point =
  tp_distance :: rat
  throttleLevel :: rat

record throttle_trace =
  fullThrottlePct :: rat
  partialThrottlePct :: rat
  coastPct :: rat
  throttleApplicationPoints :: "throttle_point list"

text \<open>
  \<^verbatim>\<open>for i in range(1, len(throttle) - 1)\<close>, over the indices still to visit.
  The range starts at 1, so \<open>i - 1\<close> is not negative.
\<close>

fun throttle_loop ::
  "series \<Rightarrow> series \<Rightarrow> nat list \<Rightarrow> throttle_point list \<Rightarrow> py_error + throttle_point list" where
  "throttle_loop throttle distance [] throttle_points = Inr throttle_points"
| "throttle_loop throttle distance (i # rest) throttle_points =
     (if items throttle ! (i - 1) < 50 \<and> items throttle ! i \<ge> 50 then
        (case getitem distance i of
           Inl e \<Rightarrow> Inl e
         | Inr d \<Rightarrow>
             throttle_loop throttle distance rest
               (throttle_points @ [\<lparr>tp_distance = d, throttleLevel = items throttle ! i\<rparr>]))
      else throttle_loop throttle distance rest throttle_points)"

definition pct :: "(rat \<Rightarrow> bool) \<Rightarrow> series \<Rightarrow> rat" where
  "pct P s =
     (if len s > 0 then of_nat (length (filter P (items s))) / of_nat (len s) * 100 else 0)"

definition get_throttle_trace :: "telemetry \<Rightarrow> py_error + throttle_trace" where
  "get_throttle_trace tel =
     (let throttle = column (Throttle tel);
          distance = column (Distance tel);
          full_throttle_pct = pct (\<lambda>t. t \<ge> 95) throttle;
          partial_throttle_pct = pct (\<lambda>t. t > 20 \<and> t < 95) throttle;
          coast_pct = pct (\<lambda>t. t \<le> 20) throttle
      in case throttle_loop throttle distance [1 ..< len throttle - 1] [] of
           Inl e \<Rightarrow> Inl e
         | Inr throttle_points \<Rightarrow>
             Inr \<lparr>fullThrottlePct = full_throttle_pct,
                  partialThrottlePct = partial_throttle_pct,
                  coastPct = coast_pct,
                  throttleApplicationPoints = take 15 throttle_points\<rparr>)"

text \<open>
  The specification's wording, for comparison: every index at which the throttle
  crosses upward from below 50 to at least 50.
\<close>

definition upward_crossings :: "rat list \<Rightarrow> nat list" where
  "upward_crossings throttle =
     filter (\<lambda>i. throttle ! (i - 1) < 50 \<and> throttle ! i \<ge> 50) [1 ..< length throttle]"

section \<open>Downforce estimator: \<^verbatim>\<open>get_downforce_analysis\<close>\<close>

record downforce_analysis =
  downforceIndex :: rat
  highSpeedAvg :: rat
  lowSpeedAvg :: rat
  speedVariance :: rat
  aerodynamicEfficiency :: rat

text \<open>
  \<^verbatim>\<open>np.percentile(a, q)\<close> with numpy's default linear interpolation, on a non-empty
  array: the sorted array is read at the virtual index \<open>(n - 1) * q / 100\<close>,
  interpolating between the two neighbouring entries.
\<close>

definition np_percentile :: "rat list \<Rightarrow> rat \<Rightarrow> rat" where
  "np_percentile a q =
     (let s = sort a; n = length s;
          v = of_nat (n - 1) * q / 100;
          lo = nat \<lfloor>v\<rfloor>;
          hi = min (lo + 1) (n - 1)
      in s ! lo + (v - of_nat lo) * (s ! hi - s ! lo))"

text \<open>\<^verbatim>\<open>np.var\<close>: the mean of the squared deviations from the mean.\<close>

definition np_var :: "rat list \<Rightarrow> rat" where
  "np_var a = np_mean (map (\<lambda>x. (x - np_mean a) * (x - np_mean a)) a)"

text \<open>
  The estimator on the speed samples of a lap. The source calls \<^verbatim>\<open>np.percentile\<close>
  before any length check; this model covers the laps that have at least one
  speed sample, and \<open>None\<close> stands for the call on an empty channel, whose outcome
  is the numerical library's and is left open here.
\<close>

definition get_downforce_analysis :: "telemetry \<Rightarrow> downforce_analysis option" where
  "get_downforce_analysis tel =
     (let speed = items (column (Speed tel))
      in if speed = [] then None
         else
           (let high_speed = filter (\<lambda>x. x > np_percentile speed 75) speed;
                high_speed_avg = (if high_speed \<noteq> [] then np_mean high_speed else 0);
                low_speed = filter (\<lambda>x. x < np_percentile speed 25) speed;
                low_speed_avg = (if low_speed \<noteq> [] then np_mean low_speed else 0);
                speed_variance = (if length speed > 0 then np_var speed else 0);
                downforce_index =
                  min 100 (high_speed_avg / 350 * 70 + (30 - speed_variance / 100))
            in Some \<lparr>downforceIndex = downforce_index,
                     highSpeedAvg = high_speed_avg,
                     lowSpeedAvg = low_speed_avg,
                     speedVariance = speed_variance,
                     aerodynamicEfficiency = high_speed_avg / (speed_variance + 1)\<rparr>))"

section \<open>Energy estimator: the \<^verbatim>\<open>energy-analysis\<close> branch of \<^verbatim>\<open>main\<close>\<close>

record energy_analysis =
  energy_fullThrottlePct :: rat
  liftAndCoastPct :: rat
  estimatedBrakeEnergy :: rat
  estimatedEnergyRecovery :: rat
  efficiencyScore :: rat
  ersDeployment :: string
  puStress :: rat
  fuelEfficiency :: rat

text \<open>
  \<^verbatim>\<open>brake * speed\<close> on two numpy arrays: elementwise on equal lengths, an array of
  length 1 is broadcast, and any other pair of lengths raises ValueError.
\<close>

definition np_mul :: "rat list \<Rightarrow> rat list \<Rightarrow> py_error + rat list" where
  "np_mul a b =
     (if length a = length b then Inr (map2 (*) a b)
      else if length a = 1 then Inr (map (\<lambda>y. hd a * y) b)
      else if length b = 1 then Inr (map (\<lambda>x. x * hd b) a)
      else Inl ValueError)"

definition energy_analysis :: "telemetry \<Rightarrow> py_error + energy_analysis" where
  "energy_analysis tel =
     (let throttle = column (Throttle tel);
          brake = column (Brake tel);
          speed = column (Speed tel);
          full_throttle_pct = pct (\<lambda>t. t \<ge> 95) throttle;
          lift_coast_pct = pct (\<lambda>t. t \<le> 20) throttle
      in case (if len brake > 0 \<and> len speed > 0
               then (case np_mul (items brake) (items speed) of
                       Inl e \<Rightarrow> Inl e | Inr p \<Rightarrow> Inr (sum_list p / 1000))
               else Inr 0) of
           Inl e \<Rightarrow> Inl e
         | Inr brake_energy \<Rightarrow>
             (let energy_recovery = brake_energy * (65 / 100);
                  pu_stress =
                    min 100 (full_throttle_pct * (8 / 10) + (100 - lift_coast_pct) * (2 / 10));
                  fuel_efficiency = 8 / 10 + (lift_coast_pct / 100) * (3 / 10);
                  efficiency_score =
                    (100 - lift_coast_pct) * (6 / 10) + (energy_recovery / 100) * (4 / 10)
              in Inr \<lparr>energy_fullThrottlePct = full_throttle_pct,
                      liftAndCoastPct = lift_coast_pct,
                      estimatedBrakeEnergy = brake_energy,
                      estimatedEnergyRecovery = energy_recovery,
                      efficiencyScore = min 100 (max 0 efficiency_score),
                      ersDeployment = (if full_throttle_pct > 70 then ''high''
                                       else if full_throttle_pct > 50 then ''medium''
                                       else ''low''),
                      puStress = pu_stress,
                      fuelEfficiency = fuel_efficiency\<rparr>))"

section \<open>Scenario inputs\<close>

text \<open>
  The specification's scenario: 100 samples at a constant speed of 200 with no
  brake and no throttle; the distance channel is left as a parameter.
\<close>

definition constant_lap :: "rat list option \<Rightarrow> telemetry" where
  "constant_lap dchan =
     \<lparr>Speed = Some (replicate 100 200), Distance = dchan,
      Throttle = Some (replicate 100 0), Brake = Some (replicate 100 0)\<rparr>"

text \<open>
  A lap of 101 samples with two braking events: the speed falls from 300 to 100
  at index 30 and again at index 60, the brake is applied at indices 10, 20 and
  55, and the distance grows by 10 per sample.
\<close>

definition braking_lap :: telemetry where
  "braking_lap =
     \<lparr>Speed = Some [
        300, 300, 300, 300, 300, 300, 300, 300, 300, 300, 300, 300, 300, 300, 300, 300,
        300, 300, 300, 300, 300, 300, 300, 300, 300, 300, 300, 300, 300, 300, 100, 100,
        100, 100, 100, 100, 100, 100, 100, 100, 100, 100, 100, 100, 100, 100, 100, 100,
        100, 100, 300, 300, 300, 300, 300, 300, 300, 300, 300, 300, 100, 100, 100, 100,
        100, 100, 100, 100, 100, 100, 100, 100, 100, 100, 100, 100, 100, 100, 100, 100,
        100, 100, 100, 100, 100, 100, 100, 100, 100, 100, 100, 100, 100, 100, 100, 100,
        100, 100, 100, 100, 100],
      Distance = Some [
        0, 10, 20, 30, 40, 50, 60, 70, 80, 90, 100, 110, 120, 130, 140, 150, 160, 170, 180,
        190, 200, 210, 220, 230, 240, 250, 260, 270, 280, 290, 300, 310, 320, 330, 340,
        350, 360, 370, 380, 390, 400, 410, 420, 430, 440, 450, 460, 470, 480, 490, 500,
        510, 520, 530, 540, 550, 560, 570, 580, 590, 600, 610, 620, 630, 640, 650, 660,
        670, 680, 690, 700, 710, 720, 730, 740, 750, 760, 770, 780, 790, 800, 810, 820,
        830, 840, 850, 860, 870, 880, 890, 900, 910, 920, 930, 940, 950, 960, 970, 980,
        990, 1000],
      Throttle = Some [
        0, 0, 0, 0, 0, 0, 0, 0, 0, 0, 0, 0, 0, 0, 0, 0, 0, 0, 0, 0, 0, 0, 0, 0, 0, 0, 0, 0,
        0, 0, 0, 0, 0, 0, 0, 0, 0, 0, 0, 0, 0, 0, 0, 0, 0, 0, 0, 0, 0, 0, 0, 0, 0, 0, 0, 0,
        0, 0, 0, 0, 0, 0, 0, 0, 0, 0, 0, 0, 0, 0, 0, 0, 0, 0, 0, 0, 0, 0, 0, 0, 0, 0, 0, 0,
        0, 0, 0, 0, 0, 0, 0, 0, 0, 0, 0, 0, 0, 0, 0, 0, 0],
      Brake = Some [
        0, 0, 0, 0, 0, 0, 0, 0, 0, 0, 50, 0, 0, 0, 0, 0, 0, 0, 0, 0, 80, 0, 0, 0, 0, 0, 0,
        0, 0, 0, 0, 0, 0, 0, 0, 0, 0, 0, 0, 0, 0, 0, 0, 0, 0, 0, 0, 0, 0, 0, 0, 0, 0, 0, 0,
        90, 0, 0, 0, 0, 0, 0, 0, 0, 0, 0, 0, 0, 0, 0, 0, 0, 0, 0, 0, 0, 0, 0, 0, 0, 0, 0,
        0, 0, 0, 0, 0, 0, 0, 0, 0, 0, 0, 0, 0, 0, 0, 0, 0, 0, 0]\<rparr>"

definition braking_lap_corners :: "corner list" where
  "braking_lap_corners =
     [\<lparr>cornerNumber = 1,
       brakePoint_distance = 100, brakePoint_speed = 300, brakePoint_brakeForce = 50,
       apex_distance = 300, apex_minSpeed = 100,
       exit_distance = 300, exit_speed = 100, exit_throttle = 0,
       speedDelta = 200, corner_type = ''medium''\<rparr>,
      \<lparr>cornerNumber = 2,
       brakePoint_distance = 550, brakePoint_speed = 300, brakePoint_brakeForce = 90,
       apex_distance = 600, apex_minSpeed = 100,
       exit_distance = 600, exit_speed = 100, exit_throttle = 0,
       speedDelta = 200, corner_type = ''medium''\<rparr>]"

text \<open>Two short laps with one brake application of five and of six samples.\<close>

definition short_zone_lap :: telemetry where
  "short_zone_lap =
     \<lparr>Speed = Some [200, 190, 180, 170, 160, 150, 150],
      Distance = Some [0, 1, 2, 3, 4, 5, 6],
      Throttle = Some [0, 0, 0, 0, 0, 0, 0],
      Brake = Some [0, 20, 20, 20, 20, 20, 0]\<rparr>"

definition long_zone_lap :: telemetry where
  "long_zone_lap =
     \<lparr>Speed = Some [200, 190, 180, 170, 160, 150, 140, 140],
      Distance = Some [0, 1, 2, 3, 4, 5, 6, 7],
      Throttle = Some [0, 0, 0, 0, 0, 0, 0, 0],
      Brake = Some [0, 20, 30, 40, 50, 40, 30, 0]\<rparr>"

section \<open>Tire degradation: the stints are the maximal runs\<close>

lemma make_stint_spec: "sl \<noteq> [] \<Longrightarrow> make_stint (Some c) sl = spec_stint (c, sl)"
  by (simp add: make_stint_def spec_stint_def calculate_degradation_def spec_degradation_def
      np_mean_def last_map hd_map Let_def not_less)


lemma takeWhile_pending:
  "takeWhile (\<lambda>p. fst p = c) (map (Pair c) sl @ rest) = map (Pair c) sl @ takeWhile (\<lambda>p. fst p = c) rest"
  by (induction sl) simp_all

lemma dropWhile_pending:
  "dropWhile (\<lambda>p. fst p = c) (map (Pair c) sl @ rest) = dropWhile (\<lambda>p. fst p = c) rest"
  by (induction sl) simp_all

lemma maximal_runs_pending:
  "sl \<noteq> [] \<Longrightarrow> maximal_runs (map (Pair c) sl @ rest) =
     (c, sl @ map snd (takeWhile (\<lambda>p. fst p = c) rest)) # maximal_runs (dropWhile (\<lambda>p. fst p = c) rest)"
  by (cases sl) (simp_all add: takeWhile_pending dropWhile_pending comp_def)

lemma maximal_runs_pending_end:
  "sl \<noteq> [] \<Longrightarrow> maximal_runs (map (Pair c) sl) = [(c, sl)]"
  using maximal_runs_pending [of sl c "[]"] by simp


lemma stint_loop_runs:
  "sl \<noteq> [] \<Longrightarrow>
   flush (stint_loop ls ts (Some c) sl) =
     ts @ map spec_stint (maximal_runs (map (Pair c) sl @ retained_laps ls))"
proof (induction ls arbitrary: ts c sl)
  case Nil
  then show ?case
    by (simp add: flush_def retained_laps_def maximal_runs_pending_end make_stint_spec)
next
  case (Cons l ls)
  show ?case
  proof (cases "Compound l")
    case None
    then show ?thesis using Cons by (simp add: retained_laps_def)
  next
    case (Some c')
    show ?thesis
    proof (cases "LapTime l")
      case None
      then show ?thesis using Cons Some by (simp add: retained_laps_def)
    next
      case (Some t)
      let ?x = "\<lparr>lapNumber = LapNumber l, time = t\<rparr>"
      have ret: "retained_laps (l # ls) = (upper c', ?x) # retained_laps ls"
        using Some \<open>Compound l = Some c'\<close> by (simp add: retained_laps_def)
      show ?thesis
      proof (cases "upper c' = c")
        case True
        have "flush (stint_loop (l # ls) ts (Some c) sl) = flush (stint_loop ls ts (Some c) (sl @ [?x]))"
          using Some \<open>Compound l = Some c'\<close> True by (simp add: Let_def)
        also have "\<dots> = ts @ map spec_stint (maximal_runs (map (Pair c) (sl @ [?x]) @ retained_laps ls))"
          by (rule Cons.IH) simp
        finally show ?thesis using True by (simp add: ret)
      next
        case False
        have "flush (stint_loop (l # ls) ts (Some c) sl)
              = flush (stint_loop ls (ts @ [make_stint (Some c) sl]) (Some (upper c')) [?x])"
          using Some \<open>Compound l = Some c'\<close> False Cons.prems by (simp add: Let_def)
        also have "\<dots> = (ts @ [make_stint (Some c) sl]) @
             map spec_stint (maximal_runs (map (Pair (upper c')) [?x] @ retained_laps ls))"
          by (rule Cons.IH) simp
        finally show ?thesis using False Cons.prems
          by (simp add: ret maximal_runs_pending make_stint_spec)
      qed
    qed
  qed
qed

lemma stint_loop_runs_init:
  "flush (stint_loop ls [] None []) = map spec_stint (maximal_runs (retained_laps ls))"
proof (induction ls)
  case Nil
  then show ?case by (simp add: flush_def retained_laps_def)
next
  case (Cons l ls)
  show ?case
  proof (cases "Compound l")
    case None
    then show ?thesis using Cons by (simp add: retained_laps_def)
  next
    case (Some c')
    show ?thesis
    proof (cases "LapTime l")
      case None
      then show ?thesis using Cons Some by (simp add: retained_laps_def)
    next
      case (Some t)
      let ?x = "\<lparr>lapNumber = LapNumber l, time = t\<rparr>"
      have ret: "retained_laps (l # ls) = (upper c', ?x) # retained_laps ls"
        using Some \<open>Compound l = Some c'\<close> by (simp add: retained_laps_def)
      have "flush (stint_loop (l # ls) [] None []) = flush (stint_loop ls [] (Some (upper c')) [?x])"
        using Some \<open>Compound l = Some c'\<close> by (simp add: Let_def)
      also have "\<dots> = [] @ map spec_stint (maximal_runs (map (Pair (upper c')) [?x] @ retained_laps ls))"
        by (rule stint_loop_runs) simp
      finally show ?thesis by (simp add: ret)
    qed
  qed
qed


lemma maximal_runs_concat:
  "concat (map (\<lambda>r. map (Pair (fst r)) (snd r)) (maximal_runs xs)) = xs"
proof (induction xs rule: maximal_runs.induct)
  case 1
  show ?case by simp
next
  case (2 k v xs)
  have "map (Pair k) (map snd (takeWhile (\<lambda>p. fst p = k) xs)) = takeWhile (\<lambda>p. fst p = k) xs"
    by (induction xs) auto
  with 2 show ?case by simp
qed

lemma maximal_runs_nonempty: "r \<in> set (maximal_runs xs) \<Longrightarrow> snd r \<noteq> []"
  by (induction xs arbitrary: r rule: maximal_runs.induct) auto

lemma maximal_runs_hd:
  "maximal_runs xs \<noteq> [] \<Longrightarrow> fst (hd (maximal_runs xs)) = fst (hd xs)"
  by (cases xs rule: maximal_runs.cases) auto

lemma maximal_runs_distinct_adj: "distinct_adj (map fst (maximal_runs xs))"
proof (induction xs rule: maximal_runs.induct)
  case 1
  show ?case by simp
next
  case (2 k v xs)
  let ?d = "dropWhile (\<lambda>p. fst p = k) xs"
  show ?case
  proof (cases "maximal_runs ?d")
    case Nil
    then show ?thesis by simp
  next
    case (Cons r rs)
    have ne: "?d \<noteq> []"
    proof
      assume "?d = []"
      then have "maximal_runs ?d = []" by (simp only: maximal_runs.simps)
      with Cons show False by simp
    qed
    then have "fst (hd ?d) \<noteq> k" using hd_dropWhile [of "\<lambda>p. fst p = k" xs] by simp
    moreover have "fst r = fst (hd ?d)" using maximal_runs_hd [of ?d] Cons by simp
    ultimately show ?thesis using 2 Cons by (simp add: distinct_adj_Cons)
  qed
qed

lemma upper_SOFT: "upper ''SOFT'' = ''SOFT''" by code_simp
lemma upper_MEDIUM: "upper ''MEDIUM'' = ''MEDIUM''" by code_simp
lemma SOFT_MEDIUM: "''MEDIUM'' \<noteq> ''SOFT''" by simp

text \<open>
  C8. For every driver's lap sequence, the stints reported are the maximal runs
  of consecutive retained laps (compound and lap time both present) on one
  compound, in lap order; a stint of at least 3 laps reports
  (last lap time - first lap time) / lap count as degradation and a shorter one
  reports 0. Five SOFT laps followed by five MEDIUM laps give exactly two
  stints of five laps, each with the degradation of its own first and last lap.
\<close>

theorem tire_stints_maximal_runs:
  "get_tire_degradation session_laps driver =
     map spec_stint (maximal_runs (retained_laps (filter (\<lambda>l. Driver l = driver) session_laps)))
   \<and> get_tire_degradation
       [\<lparr>Driver = d, LapNumber = 1, LapTime = Some t1, Compound = Some ''SOFT''\<rparr>,
        \<lparr>Driver = d, LapNumber = 2, LapTime = Some t2, Compound = Some ''SOFT''\<rparr>,
        \<lparr>Driver = d, LapNumber = 3, LapTime = Some t3, Compound = Some ''SOFT''\<rparr>,
        \<lparr>Driver = d, LapNumber = 4, LapTime = Some t4, Compound = Some ''SOFT''\<rparr>,
        \<lparr>Driver = d, LapNumber = 5, LapTime = Some t5, Compound = Some ''SOFT''\<rparr>,
        \<lparr>Driver = d, LapNumber = 6, LapTime = Some t6, Compound = Some ''MEDIUM''\<rparr>,
        \<lparr>Driver = d, LapNumber = 7, LapTime = Some t7, Compound = Some ''MEDIUM''\<rparr>,
        \<lparr>Driver = d, LapNumber = 8, LapTime = Some t8, Compound = Some ''MEDIUM''\<rparr>,
        \<lparr>Driver = d, LapNumber = 9, LapTime = Some t9, Compound = Some ''MEDIUM''\<rparr>,
        \<lparr>Driver = d, LapNumber = 10, LapTime = Some t10, Compound = Some ''MEDIUM''\<rparr>] d =
      [\<lparr>compound = Some ''SOFT'',
        laps = [\<lparr>lapNumber = 1, time = t1\<rparr>, \<lparr>lapNumber = 2, time = t2\<rparr>,
                \<lparr>lapNumber = 3, time = t3\<rparr>, \<lparr>lapNumber = 4, time = t4\<rparr>,
                \<lparr>lapNumber = 5, time = t5\<rparr>],
        avgLapTime = (t1 + t2 + t3 + t4 + t5) / 5, degradation = (t5 - t1) / 5\<rparr>,
       \<lparr>compound = Some ''MEDIUM'',
        laps = [\<lparr>lapNumber = 6, time = t6\<rparr>, \<lparr>lapNumber = 7, time = t7\<rparr>,
                \<lparr>lapNumber = 8, time = t8\<rparr>, \<lparr>lapNumber = 9, time = t9\<rparr>,
                \<lparr>lapNumber = 10, time = t10\<rparr>],
        avgLapTime = (t6 + t7 + t8 + t9 + t10) / 5, degradation = (t10 - t6) / 5\<rparr>]"
proof
  have "get_tire_degradation session_laps driver =
          flush (stint_loop (filter (\<lambda>l. Driver l = driver) session_laps) [] None [])"
    by (simp add: get_tire_degradation_def flush_def Let_def split: prod.splits)
  then show "get_tire_degradation session_laps driver =
     map spec_stint (maximal_runs (retained_laps (filter (\<lambda>l. Driver l = driver) session_laps)))"
    by (simp add: stint_loop_runs_init)
next
  show "get_tire_degradation
       [\<lparr>Driver = d, LapNumber = 1, LapTime = Some t1, Compound = Some ''SOFT''\<rparr>,
        \<lparr>Driver = d, LapNumber = 2, LapTime = Some t2, Compound = Some ''SOFT''\<rparr>,
        \<lparr>Driver = d, LapNumber = 3, LapTime = Some t3, Compound = Some ''SOFT''\<rparr>,
        \<lparr>Driver = d, LapNumber = 4, LapTime = Some t4, Compound = Some ''SOFT''\<rparr>,
        \<lparr>Driver = d, LapNumber = 5, LapTime = Some t5, Compound = Some ''SOFT''\<rparr>,
        \<lparr>Driver = d, LapNumber = 6, LapTime = Some t6, Compound = Some ''MEDIUM''\<rparr>,
        \<lparr>Driver = d, LapNumber = 7, LapTime = Some t7, Compound = Some ''MEDIUM''\<rparr>,
        \<lparr>Driver = d, LapNumber = 8, LapTime = Some t8, Compound = Some ''MEDIUM''\<rparr>,
        \<lparr>Driver = d, LapNumber = 9, LapTime = Some t9, Compound = Some ''MEDIUM''\<rparr>,
        \<lparr>Driver = d, LapNumber = 10, LapTime = Some t10, Compound = Some ''MEDIUM''\<rparr>] d =
      [\<lparr>compound = Some ''SOFT'',
        laps = [\<lparr>lapNumber = 1, time = t1\<rparr>, \<lparr>lapNumber = 2, time = t2\<rparr>,
                \<lparr>lapNumber = 3, time = t3\<rparr>, \<lparr>lapNumber = 4, time = t4\<rparr>,
                \<lparr>lapNumber = 5, time = t5\<rparr>],
        avgLapTime = (t1 + t2 + t3 + t4 + t5) / 5, degradation = (t5 - t1) / 5\<rparr>,
       \<lparr>compound = Some ''MEDIUM'',
        laps = [\<lparr>lapNumber = 6, time = t6\<rparr>, \<lparr>lapNumber = 7, time = t7\<rparr>,
                \<lparr>lapNumber = 8, time = t8\<rparr>, \<lparr>lapNumber = 9, time = t9\<rparr>,
                \<lparr>lapNumber = 10, time = t10\<rparr>],
        avgLapTime = (t6 + t7 + t8 + t9 + t10) / 5, degradation = (t10 - t6) / 5\<rparr>]"
    by (simp add: get_tire_degradation_def make_stint_def calculate_degradation_def np_mean_def
        upper_SOFT upper_MEDIUM Let_def)
qed

section \<open>Race pace\<close>

lemma pace_loop_drivers:
  "map pace_driver (pace_loop session_laps ds acc) =
     map pace_driver acc @
     filter (\<lambda>d. \<exists>l\<in>set session_laps. Driver l = d \<and> LapTime l \<noteq> None) ds"
proof (induction ds arbitrary: acc)
  case Nil
  show ?case by simp
next
  case (Cons d ds)
  have v: "dropna_LapTime (filter (\<lambda>l. Driver l = d) session_laps) \<noteq> [] \<longleftrightarrow>
        (\<exists>l\<in>set session_laps. Driver l = d \<and> LapTime l \<noteq> None)"
    by (auto simp: dropna_LapTime_def filter_empty_conv)
  show ?case
  proof (cases "dropna_LapTime (filter (\<lambda>l. Driver l = d) session_laps) = []")
    case True
    with v have "\<not> (\<exists>l\<in>set session_laps. Driver l = d \<and> LapTime l \<noteq> None)" by simp
    with True Cons show ?thesis by (simp add: Let_def)
  next
    case False
    with v have "\<exists>l\<in>set session_laps. Driver l = d \<and> LapTime l \<noteq> None" by simp
    with False Cons show ?thesis by (simp add: Let_def)
  qed
qed

text \<open>
  C10. The drivers of the paceComparison entries are exactly the requested
  drivers that have at least one lap with a lap time, in the order requested:
  a driver without such a lap gets no entry, and the function has no failing
  branch.
\<close>

theorem race_pace_omits_drivers_without_laps:
  "map pace_driver (get_race_pace session_laps drivers) =
     filter (\<lambda>d. \<exists>l\<in>set session_laps. Driver l = d \<and> LapTime l \<noteq> None) drivers"
  by (simp add: get_race_pace_def pace_loop_drivers)

theorem race_pace_omits_drivers_without_laps_witness:
  "map pace_driver
     (get_race_pace
        [\<lparr>Driver = ''VER'', LapNumber = 1, LapTime = Some 90, Compound = None\<rparr>,
         \<lparr>Driver = ''HAM'', LapNumber = 1, LapTime = None, Compound = None\<rparr>,
         \<lparr>Driver = ''LEC'', LapNumber = 1, LapTime = Some 91, Compound = None\<rparr>]
        [''LEC'', ''HAM'', ''VER'']) = [''LEC'', ''VER'']"
  using race_pace_omits_drivers_without_laps
    [of "[\<lparr>Driver = ''VER'', LapNumber = 1, LapTime = Some 90, Compound = None\<rparr>,
         \<lparr>Driver = ''HAM'', LapNumber = 1, LapTime = None, Compound = None\<rparr>,
         \<lparr>Driver = ''LEC'', LapNumber = 1, LapTime = Some 91, Compound = None\<rparr>]"
        "[''LEC'', ''HAM'', ''VER'']"]
  by simp

section \<open>Fuel effect\<close>

lemma valid_pairs_fst:
  "map fst (valid_pairs session_laps driver) =
     map (\<lambda>l. of_int (LapNumber l)) (dropna_LapTime (filter (\<lambda>l. Driver l = driver) session_laps))"
  by (induction session_laps) (auto simp: valid_pairs_def dropna_LapTime_def)

lemma valid_pairs_snd:
  "map snd (valid_pairs session_laps driver) =
     map (\<lambda>l. the (LapTime l)) (dropna_LapTime (filter (\<lambda>l. Driver l = driver) session_laps))"
  by (induction session_laps) (auto simp: valid_pairs_def dropna_LapTime_def)

lemma valid_pairs_length:
  "length (valid_pairs session_laps driver) =
     length (dropna_LapTime (filter (\<lambda>l. Driver l = driver) session_laps))"
  using arg_cong [OF valid_pairs_fst, of length] by simp

text \<open>
  C9. With fewer than 5 valid laps the result is the dictionary whose only
  effect entry is fuelEffect = 0, with no fuelEffectPerLap and no
  totalFuelEffect entry, whatever the regression routine is (it is not
  consulted); with 5 or more, fuelEffectPerLap is the leading coefficient of
  the first-degree fit of lap time against lap number and totalFuelEffect is
  that slope times the number of valid laps.
\<close>

theorem fuel_effect_needs_five_laps:
  "(length (valid_pairs session_laps driver) < 5 \<longrightarrow>
      get_fuel_effect polyfit1 session_laps driver =
        \<lparr>fuel_driver = driver, fuelEffect = Some 0, fuelEffectPerLap = None,
         totalFuelEffect = None\<rparr>
      \<and> get_fuel_effect polyfit1 session_laps driver = get_fuel_effect other_fit session_laps driver)
   \<and> (5 \<le> length (valid_pairs session_laps driver) \<longrightarrow>
      (let slope = fst (polyfit1 (map fst (valid_pairs session_laps driver))
                                 (map snd (valid_pairs session_laps driver)))
       in get_fuel_effect polyfit1 session_laps driver =
            \<lparr>fuel_driver = driver, fuelEffect = None, fuelEffectPerLap = Some slope,
             totalFuelEffect = Some (slope * of_nat (length (valid_pairs session_laps driver)))\<rparr>))"
  by (simp add: get_fuel_effect_def Let_def valid_pairs_fst valid_pairs_snd valid_pairs_length)

theorem fuel_effect_needs_five_laps_witness:
  "get_fuel_effect least_squares_line
     [\<lparr>Driver = ''VER'', LapNumber = 1, LapTime = Some 95, Compound = None\<rparr>,
      \<lparr>Driver = ''VER'', LapNumber = 2, LapTime = None, Compound = None\<rparr>] ''VER'' =
     \<lparr>fuel_driver = ''VER'', fuelEffect = Some 0, fuelEffectPerLap = None, totalFuelEffect = None\<rparr>
   \<and> get_fuel_effect least_squares_line
     [\<lparr>Driver = ''VER'', LapNumber = 1, LapTime = Some 95, Compound = None\<rparr>,
      \<lparr>Driver = ''VER'', LapNumber = 2, LapTime = Some 94, Compound = None\<rparr>,
      \<lparr>Driver = ''VER'', LapNumber = 3, LapTime = Some 93, Compound = None\<rparr>,
      \<lparr>Driver = ''VER'', LapNumber = 4, LapTime = Some 92, Compound = None\<rparr>,
      \<lparr>Driver = ''VER'', LapNumber = 5, LapTime = Some 91, Compound = None\<rparr>] ''VER'' =
     \<lparr>fuel_driver = ''VER'', fuelEffect = None, fuelEffectPerLap = Some (- 1),
      totalFuelEffect = Some (- 5)\<rparr>"
  using fuel_effect_needs_five_laps
     [of "[\<lparr>Driver = ''VER'', LapNumber = 1, LapTime = Some 95, Compound = None\<rparr>,
      \<lparr>Driver = ''VER'', LapNumber = 2, LapTime = None, Compound = None\<rparr>]" "''VER''"
      least_squares_line least_squares_line]
    fuel_effect_needs_five_laps
     [of "[\<lparr>Driver = ''VER'', LapNumber = 1, LapTime = Some 95, Compound = None\<rparr>,
      \<lparr>Driver = ''VER'', LapNumber = 2, LapTime = Some 94, Compound = None\<rparr>,
      \<lparr>Driver = ''VER'', LapNumber = 3, LapTime = Some 93, Compound = None\<rparr>,
      \<lparr>Driver = ''VER'', LapNumber = 4, LapTime = Some 92, Compound = None\<rparr>,
      \<lparr>Driver = ''VER'', LapNumber = 5, LapTime = Some 91, Compound = None\<rparr>]" "''VER''"
      least_squares_line least_squares_line]
  by (simp add: valid_pairs_def least_squares_line_def)

text \<open>
  Below five valid laps the returned dictionary has no fuelEffectPerLap entry:
  a reader of that key does not find 0 there.
\<close>

theorem fuel_effect_per_lap_absent_counterexample:
  "fuelEffectPerLap
     (get_fuel_effect least_squares_line
        [\<lparr>Driver = ''VER'', LapNumber = 1, LapTime = Some 95, Compound = None\<rparr>,
         \<lparr>Driver = ''VER'', LapNumber = 2, LapTime = None, Compound = None\<rparr>] ''VER'')
     \<noteq> Some 0"
  by (simp add: get_fuel_effect_def dropna_LapTime_def)

section \<open>Throttle application points\<close>

text \<open>
  C6. On the throttle series [0, 100] the only upward crossing of 50 is at
  index 1, the last sample; the analyser's scan stops one index earlier and
  reports no application point.
\<close>

theorem throttle_crossing_at_last_sample_missed:
  "get_throttle_trace
     \<lparr>Speed = Some [100, 100], Distance = Some [0, 10],
      Throttle = Some [0, 100], Brake = Some [0, 0]\<rparr> =
     Inr \<lparr>fullThrottlePct = 50, partialThrottlePct = 0, coastPct = 50,
          throttleApplicationPoints = []\<rparr>
   \<and> upward_crossings [0, 100] = [1]"
  by (simp add: get_throttle_trace_def column_def len_def pct_def upward_crossings_def)

section \<open>Composite estimators\<close>

text \<open>
  C2. On the speed series [0, 0, 300, 300] no sample lies above the 75th
  percentile, the variance is 22500, and the downforce index is
  0 + (30 - 225) = -195: the index has an upper bound of 100 and no lower one.
\<close>

theorem downforce_index_below_zero:
  "map_option downforceIndex
     (get_downforce_analysis
        \<lparr>Speed = Some [0, 0, 300, 300], Distance = Some [0, 1, 2, 3],
         Throttle = Some [0, 0, 0, 0], Brake = Some [0, 0, 0, 0]\<rparr>) = Some (- 195)"
  by code_simp

text \<open>The two energy scores, for their part, stay within 0 and 100.\<close>

lemma pct_range: "0 \<le> pct P s \<and> pct P s \<le> 100"
proof (cases "len s > 0")
  case True
  have "length (filter P (items s)) \<le> len s" by (simp add: len_def)
  then have "(of_nat (length (filter P (items s))) :: rat) \<le> of_nat (len s)" by simp
  then have "(of_nat (length (filter P (items s))) :: rat) / of_nat (len s) \<le> 1"
    using True by (simp add: divide_le_eq_1)
  then have "(of_nat (length (filter P (items s))) :: rat) / of_nat (len s) * 100 \<le> 1 * 100"
    by (intro mult_right_mono) simp_all
  moreover have "0 \<le> (of_nat (length (filter P (items s))) :: rat) / of_nat (len s) * 100" by simp
  ultimately show ?thesis using True unfolding pct_def by simp
next
  case False
  then show ?thesis by (simp add: pct_def)
qed

lemma energy_scores_in_range:
  assumes "energy_analysis tel = Inr r"
  shows "0 \<le> puStress r \<and> puStress r \<le> 100 \<and> 0 \<le> efficiencyScore r \<and> efficiencyScore r \<le> 100"
proof -
  let ?ft = "pct (\<lambda>t. t \<ge> 95) (column (Throttle tel))"
  let ?lc = "pct (\<lambda>t. t \<le> 20) (column (Throttle tel))"
  have pu: "puStress r = min 100 (?ft * (8 / 10) + (100 - ?lc) * (2 / 10))"
    and "\<exists>x. efficiencyScore r = min 100 (max 0 x)"
    using assms by (auto simp: energy_analysis_def Let_def split: sum.splits if_splits)
  moreover have "0 \<le> ?ft" "?lc \<le> 100" using pct_range by blast+
  ultimately show ?thesis by auto
qed

section \<open>Missing channels\<close>

lemma corner_detector_without_distance:
  "get_corner_analysis (braking_lap\<lparr>Distance := None\<rparr>) = Inl IndexError"
  by code_simp

text \<open>
  C1. A lap without its distance channel makes the brake-zone detector raise
  IndexError as soon as a zone is closed, the throttle analyser as soon as the
  throttle crosses 50, and the corner detector at the first speed drop above 40;
  a lap without its brake channel makes the brake-zone detector raise TypeError.
\<close>

theorem detectors_raise_on_missing_channels:
  "get_brake_analysis
     \<lparr>Speed = Some [200, 190, 180, 170, 160, 150, 140, 140], Distance = None,
      Throttle = Some [0, 0, 0, 0, 0, 0, 0, 0],
      Brake = Some [0, 50, 50, 50, 50, 50, 50, 0]\<rparr> = Inl IndexError
   \<and> get_brake_analysis
     \<lparr>Speed = Some [100, 100], Distance = Some [0, 10],
      Throttle = Some [0, 100], Brake = None\<rparr> = Inl TypeError
   \<and> get_throttle_trace
     \<lparr>Speed = Some [100, 100, 100], Distance = None,
      Throttle = Some [0, 100, 100], Brake = Some [0, 0, 0]\<rparr> = Inl IndexError
   \<and> get_corner_analysis (braking_lap\<lparr>Distance := None\<rparr>) = Inl IndexError"
  by (simp add: get_brake_analysis_def get_throttle_trace_def column_def len_def pct_def
      upt_conv_Cons slice_def zone_record_def getitem_def corner_detector_without_distance)

section \<open>The constant-speed scenario\<close>

lemma np_mean_replicate: "0 < m \<Longrightarrow> np_mean (replicate m c) = c"
  by (simp add: np_mean_def sum_list_replicate)

lemma np_var_replicate: "0 < m \<Longrightarrow> np_var (replicate m c) = 0"
  by (simp add: np_var_def np_mean_replicate np_mean_def sum_list_replicate map_replicate_const)

lemma sort_replicate: "sort (replicate m (c::rat)) = replicate m c"
  by (induction m) (simp_all add: insort_is_Cons)

lemma np_percentile_replicate:
  assumes "0 < m" "0 \<le> q" "q \<le> 100"
  shows "np_percentile (replicate m c) q = c"
proof -
  let ?v = "of_nat (m - 1) * q / 100 :: rat"
  have "?v \<le> of_nat (m - 1)"
  proof -
    have "of_nat (m - 1) * q \<le> of_nat (m - 1) * (100::rat)"
      using assms by (intro mult_left_mono) simp_all
    then show ?thesis by simp
  qed
  then have "\<lfloor>?v\<rfloor> \<le> int (m - 1)" by (simp add: floor_le_iff)
  then have lo: "nat \<lfloor>?v\<rfloor> < m" using assms(1) by linarith
  have hi: "min (nat \<lfloor>?v\<rfloor> + 1) (m - 1) < m" using assms(1) by simp
  show ?thesis
    using lo hi by (simp add: np_percentile_def sort_replicate Let_def del: min_less_iff_disj)
qed

lemma corner_step_constant:
  assumes "items speed = replicate n c" "i + 40 < n"
  shows "corner_step speed distance brake throttle i l cs =
           Inr (if i > 20 then i + 5 else i + 1, l, cs)"
proof (cases "i > 20")
  case True
  have "slice speed (i - 10) i = replicate 10 c"
    using assms True by (simp add: slice_def min_def)
  then have "np_mean (slice speed (i - 10) i) = c" by (simp add: np_mean_replicate)
  moreover have "items speed ! i = c" using assms by simp
  ultimately show ?thesis using True by (simp add: corner_step_def Let_def)
next
  case False
  then show ?thesis by (simp add: corner_step_def)
qed

lemma corner_loop_constant:
  "items speed = replicate n c \<Longrightarrow> corner_loop speed distance brake throttle i l cs = Inr cs"
proof (induction speed distance brake throttle i l cs rule: corner_loop.induct)
  case (1 speed distance brake throttle i l cs)
  show ?case
  proof (cases "i + 40 < len speed")
    case True
    then have lt: "i + 40 < n" using 1(2) by (simp add: len_def)
    note st = corner_step_constant [OF 1(2) lt, of distance brake throttle l cs]
    have "corner_loop speed distance brake throttle i l cs =
            corner_loop speed distance brake throttle (if i > 20 then i + 5 else i + 1) l cs"
      using True by (subst corner_loop.simps) (simp add: st)
    also have "\<dots> = Inr cs"
      using "1.IH" [OF True st refl refl] 1(2) by simp
    finally show ?thesis .
  next
    case False
    then show ?thesis by (subst corner_loop.simps) simp
  qed
qed

lemma brake_loop_idle:
  "\<forall>i\<in>set idxs. items brake ! i \<le> 10 \<Longrightarrow>
   brake_loop brake speed distance idxs zs False z = Inr zs"
  by (induction idxs) (auto simp: not_less)

text \<open>
  C3. For 100 samples at speed 200 with zero brake and zero throttle the
  analysers report no corner, no brake zone and a speed variance of 0; no sample
  lies above the 75th percentile, so the high-speed average and with it the
  aerodynamic efficiency are 0.
\<close>

theorem constant_speed_scenario:
  "get_corner_analysis (constant_lap dchan) = Inr []
   \<and> get_brake_analysis (constant_lap dchan) =
       Inr \<lparr>brakeZones = [], totalBrakeTimePercent = 0, overallAvgBrakeForce = 0\<rparr>
   \<and> get_downforce_analysis (constant_lap dchan) =
       Some \<lparr>downforceIndex = 30, highSpeedAvg = 0, lowSpeedAvg = 0, speedVariance = 0,
             aerodynamicEfficiency = 0\<rparr>"
proof (intro conjI)
  show "get_corner_analysis (constant_lap dchan) = Inr []"
    by (simp add: get_corner_analysis_def constant_lap_def column_def Let_def
        corner_loop_constant [where n = 100 and c = 200])
  show "get_brake_analysis (constant_lap dchan) =
       Inr \<lparr>brakeZones = [], totalBrakeTimePercent = 0, overallAvgBrakeForce = 0\<rparr>"
    by (simp add: get_brake_analysis_def constant_lap_def column_def len_def brake_loop_idle)
  show "get_downforce_analysis (constant_lap dchan) =
       Some \<lparr>downforceIndex = 30, highSpeedAvg = 0, lowSpeedAvg = 0, speedVariance = 0,
             aerodynamicEfficiency = 0\<rparr>"
    by (simp add: get_downforce_analysis_def constant_lap_def column_def
        np_percentile_replicate np_var_replicate)
qed

theorem constant_speed_efficiency_counterexample:
  "map_option aerodynamicEfficiency (get_downforce_analysis (constant_lap None)) \<noteq> Some 200"
  by (simp add: get_downforce_analysis_def constant_lap_def column_def
      np_percentile_replicate np_var_replicate)

section \<open>Corner detector: the brake point\<close>

lemma brake_point_scan_first:
  assumes "brake_point_scan brake [a ..< i] d = Inr k"
  shows "(k = d \<and> (\<forall>j. a \<le> j \<and> j < i \<longrightarrow> items brake ! j \<le> 25))
       \<or> (a \<le> k \<and> k < i \<and> items brake ! k > 25 \<and>
           (\<forall>j. a \<le> j \<and> j < k \<longrightarrow> items brake ! j \<le> 25))"
  using assms
proof (induction "i - a" arbitrary: a)
  case 0
  then show ?case by simp
next
  case (Suc n)
  then have lt: "a < i" by simp
  then have upt: "[a ..< i] = a # [Suc a ..< i]" by (simp add: upt_conv_Cons)
  show ?case
  proof (cases "getitem brake a")
    case (Inl e)
    with Suc.prems upt show ?thesis by simp
  next
    case (Inr b)
    then have b: "items brake ! a = b" by (auto simp: getitem_def split: if_splits)
    show ?thesis
    proof (cases "b > 25")
      case True
      with Suc.prems upt Inr have "k = a" by simp
      with True b lt show ?thesis by auto
    next
      case False
      with Suc.prems upt Inr have rest: "brake_point_scan brake [Suc a ..< i] d = Inr k" by simp
      have "n = i - Suc a" using Suc(2) by simp
      from Suc(1) [OF this rest]
      have "(k = d \<and> (\<forall>j. Suc a \<le> j \<and> j < i \<longrightarrow> items brake ! j \<le> 25))
          \<or> (Suc a \<le> k \<and> k < i \<and> items brake ! k > 25 \<and>
              (\<forall>j. Suc a \<le> j \<and> j < k \<longrightarrow> items brake ! j \<le> 25))" .
      moreover have "items brake ! j \<le> 25" if "a \<le> j" "j < Suc a" for j
        using that False b by (simp add: le_less_Suc_eq not_less)
      ultimately show ?thesis
        by (metis Suc_leD not_less_eq_eq linorder_not_less)
    qed
  qed
qed

lemma corner_data_brakePoint:
  "corner_data speed distance brake throttle n k a e sd = Inr c \<Longrightarrow>
     brakePoint_distance c = items distance ! k \<and> brakePoint_speed c = items speed ! k \<and>
     brakePoint_brakeForce c = items brake ! k"
  by (auto simp: corner_data_def getitem_def split: sum.splits if_splits)

lemma corner_step_accepts:
  assumes "corner_step speed distance brake throttle i l cs = Inr (i', l', cs')" "cs' \<noteq> cs"
  shows "\<exists>k a e sd c. brake_point_scan brake [i - 35 ..< i] i = Inr k \<and>
           corner_data speed distance brake throttle (length cs) k a e sd = Inr c \<and>
           cs' = cs @ [c]"
  using assms
  by (auto simp: corner_step_def Let_def split: if_splits sum.splits)

text \<open>
  C4. When the scan at index \<open>i\<close> accepts a corner, the brake point it reports
  (distance, speed and brake force) is read at the first index in \<open>[i-35, i)\<close>,
  clipped at 0, whose brake value exceeds 25, and at \<open>i\<close> itself when there is
  no such index.
\<close>

theorem brake_point_is_first_application:
  assumes "corner_step speed distance brake throttle i l cs = Inr (i', l', cs')"
    and "cs' \<noteq> cs"
  shows "\<exists>k c. cs' = cs @ [c]
           \<and> brakePoint_distance c = items distance ! k
           \<and> brakePoint_speed c = items speed ! k
           \<and> brakePoint_brakeForce c = items brake ! k
           \<and> (if \<exists>j. i - 35 \<le> j \<and> j < i \<and> items brake ! j > 25
               then i - 35 \<le> k \<and> k < i \<and> items brake ! k > 25 \<and>
                    (\<forall>j. i - 35 \<le> j \<and> j < k \<longrightarrow> items brake ! j \<le> 25)
               else k = i)"
proof -
  from corner_step_accepts [OF assms] obtain k a e sd c where
    k: "brake_point_scan brake [i - 35 ..< i] i = Inr k"
    and c: "corner_data speed distance brake throttle (length cs) k a e sd = Inr c"
    and cs': "cs' = cs @ [c]" by blast
  from brake_point_scan_first [OF k]
  have "if \<exists>j. i - 35 \<le> j \<and> j < i \<and> items brake ! j > 25
        then i - 35 \<le> k \<and> k < i \<and> items brake ! k > 25 \<and>
             (\<forall>j. i - 35 \<le> j \<and> j < k \<longrightarrow> items brake ! j \<le> 25)
        else k = i"
    by (auto simp: not_less)
  with corner_data_brakePoint [OF c] cs' show ?thesis by blast
qed

text \<open>The two-corner lap, evaluated.\<close>

lemma braking_lap_step:
  "corner_step (column (Speed braking_lap)) (column (Distance braking_lap))
     (column (Brake braking_lap)) (column (Throttle braking_lap)) 30 (- 150) [] =
   Inr (50, 300, [hd braking_lap_corners])"
  by code_simp

lemma braking_lap_result: "get_corner_analysis braking_lap = Inr braking_lap_corners"
  by code_simp

lemma braking_lap_sorted: "sorted (items (column (Distance braking_lap)))"
  by code_simp

lemma braking_lap_last: "last_brake_index (items (column (Brake braking_lap))) 30 = 20"
  by code_simp

theorem brake_point_is_first_application_witness:
  "corner_step (column (Speed braking_lap)) (column (Distance braking_lap))
     (column (Brake braking_lap)) (column (Throttle braking_lap)) 30 (- 150) [] =
     Inr (50, 300, [hd braking_lap_corners])
   \<and> [hd braking_lap_corners] \<noteq> []
   \<and> (\<exists>k c. [hd braking_lap_corners] = [] @ [c]
           \<and> brakePoint_distance c = items (column (Distance braking_lap)) ! k
           \<and> brakePoint_speed c = items (column (Speed braking_lap)) ! k
           \<and> brakePoint_brakeForce c = items (column (Brake braking_lap)) ! k
           \<and> (if \<exists>j. 30 - 35 \<le> j \<and> j < 30 \<and> items (column (Brake braking_lap)) ! j > 25
               then 30 - 35 \<le> k \<and> k < 30 \<and> items (column (Brake braking_lap)) ! k > 25 \<and>
                    (\<forall>j. 30 - 35 \<le> j \<and> j < k \<longrightarrow> items (column (Brake braking_lap)) ! j \<le> 25)
               else k = 30))"
proof -
  have ne: "[hd braking_lap_corners] \<noteq> []" by simp
  from brake_point_is_first_application [OF braking_lap_step ne] braking_lap_step ne
  show ?thesis by blast
qed

text \<open>
  On that lap the brake exceeds 25 at indices 10 and 20 before the first corner:
  the last such index is 20, with brake force 80, and the detector reports the
  brake force 50 of index 10.
\<close>

theorem last_brake_index_counterexample:
  "last_brake_index (items (column (Brake braking_lap))) 30 = 20
   \<and> items (column (Brake braking_lap)) ! 20 = 80
   \<and> map_sum id (map brakePoint_brakeForce) (get_corner_analysis braking_lap) = Inr [50, 90]"
  by (simp add: braking_lap_last braking_lap_result braking_lap_corners_def)
     (simp add: braking_lap_def column_def)

section \<open>Corner detector: ordering and numbering\<close>

lemma brake_point_scan_total:
  "\<forall>j\<in>set js. j < len brake \<Longrightarrow>
     \<exists>k. brake_point_scan brake js d = Inr k \<and> (k = d \<or> k \<in> set js)"
  by (induction js) (auto simp: getitem_def)

lemma apex_scan_mem: "apex_scan sp js m a = a \<or> apex_scan sp js m a \<in> set js"
proof (induction js arbitrary: m a)
  case Nil
  show ?case by simp
next
  case (Cons j js)
  show ?case
    using Cons [of "sp ! j" j] Cons [of m a] by (cases "sp ! j < m") auto
qed

lemma exit_scan_total:
  "\<forall>j\<in>set js. j < len throttle \<Longrightarrow>
     \<exists>e. exit_scan throttle sp js a = Inr e \<and> (e = a \<or> e \<in> set js)"
  by (induction js) (auto simp: getitem_def)

lemma corner_data_total:
  assumes "k < len speed" "a < len speed" "e < len speed"
    and "len distance = len speed" "len brake = len speed" "len throttle = len speed"
  shows "\<exists>c. corner_data speed distance brake throttle n k a e sd = Inr c \<and>
             cornerNumber c = n + 1 \<and> apex_distance c = items distance ! a"
  using assms by (simp add: corner_data_def getitem_def)

lemma corners_ok_snoc:
  assumes "corners_ok l cs" "l < apex_distance c" "cornerNumber c = length cs + 1"
  shows "corners_ok (apex_distance c) (cs @ [c])"
  using assms unfolding corners_ok_def
  by (auto simp: sorted_wrt_append)

lemma corner_step_ok:
  assumes len: "len distance = len speed" "len brake = len speed" "len throttle = len speed"
    and srt: "sorted (items distance)"
    and i: "i + 40 < len speed"
    and ok: "corners_ok l cs"
  shows "\<exists>i' l' cs'. corner_step speed distance brake throttle i l cs = Inr (i', l', cs') \<and>
           corners_ok l' cs'"
proof -
  let ?a = "apex_scan (items speed) [i ..< min (i + 40) (len speed)] (items speed ! i) i"
  have a: "i \<le> ?a" "?a < len speed"
    using apex_scan_mem [of "items speed" "[i ..< min (i + 40) (len speed)]" "items speed ! i" i] i
    by auto
  obtain k where k: "brake_point_scan brake [i - 35 ..< i] i = Inr k" "k \<le> i"
    using brake_point_scan_total [of "[i - 35 ..< i]" brake i] i len by auto
  obtain e where e: "exit_scan throttle (items speed) [?a ..< min (?a + 40) (len speed)] ?a = Inr e"
    "e < len speed"
    using exit_scan_total [of "[?a ..< min (?a + 40) (len speed)]" throttle "items speed" ?a]
      a len by auto
  have di: "getitem distance i = Inr (items distance ! i)"
    using i len by (simp add: getitem_def)
  have mono: "items distance ! i \<le> items distance ! ?a"
    using srt a len by (simp add: sorted_nth_mono len_def)
  obtain c where c: "corner_data speed distance brake throttle (length cs) k ?a e
        (items speed ! k - items speed ! ?a) = Inr c"
      "cornerNumber c = length cs + 1" "apex_distance c = items distance ! ?a"
    using corner_data_total [of k speed ?a e distance brake throttle "length cs"] k i a e len
    by auto
  have new: "corners_ok (items distance ! ?a) (cs @ [c])" if "items distance ! i - l > 150"
  proof -
    have "l < apex_distance c" using that mono c(3) by simp
    from corners_ok_snoc [OF ok this c(2)] c(3) show ?thesis by simp
  qed
  show ?thesis
    using ok new
    by (simp add: corner_step_def Let_def di k e c)
qed

lemma corner_loop_ok:
  assumes "len distance = len speed" "len brake = len speed" "len throttle = len speed"
    and "sorted (items distance)"
  shows "corners_ok l cs \<Longrightarrow>
     \<exists>cs' l'. corner_loop speed distance brake throttle i l cs = Inr cs' \<and> corners_ok l' cs'"
  using assms
proof (induction speed distance brake throttle i l cs rule: corner_loop.induct)
  case (1 speed distance brake throttle i l cs)
  show ?case
  proof (cases "i + 40 < len speed")
    case True
    from corner_step_ok [OF "1.prems"(2,3,4,5) True "1.prems"(1)]
    obtain i' l' cs' where
      st: "corner_step speed distance brake throttle i l cs = Inr (i', l', cs')"
      and ok': "corners_ok l' cs'" by blast
    from "1.IH" [OF True st refl refl ok' "1.prems"(2,3,4,5)]
    obtain cs'' l'' where
      "corner_loop speed distance brake throttle i' l' cs' = Inr cs''" "corners_ok l'' cs''"
      by blast
    then show ?thesis using True st by (subst corner_loop.simps) auto
  next
    case False
    then show ?thesis using "1.prems"(1) by (subst corner_loop.simps) auto
  qed
qed

text \<open>
  C7. For a lap whose four channels are present with one length and whose
  distance series is non-decreasing, the corner detector returns a list of
  corners (it does not raise) whose apex distances increase strictly and whose
  corner numbers are 1, 2, ..., in order.
\<close>

theorem corners_increasing_and_numbered:
  assumes "Speed tel = Some sp" and "Distance tel = Some di"
    and "Brake tel = Some br" and "Throttle tel = Some th"
    and "length di = length sp" and "length br = length sp" and "length th = length sp"
    and "sorted di"
  shows "\<exists>cs. get_corner_analysis tel = Inr cs
            \<and> sorted_wrt (<) (map apex_distance cs)
            \<and> map cornerNumber cs = [1 ..< Suc (length cs)]"
proof -
  have ok: "corners_ok (- 150) []" by (simp add: corners_ok_def)
  have "\<exists>cs' l'. corner_loop (NdArray sp) (NdArray di) (NdArray br) (NdArray th) 30 (- 150) [] = Inr cs'
          \<and> corners_ok l' cs'"
    using assms by (intro corner_loop_ok ok) (simp_all add: len_def)
  then show ?thesis
    using assms by (auto simp: get_corner_analysis_def column_def Let_def corners_ok_def)
qed

theorem corners_increasing_and_numbered_witness:
  "sorted (items (column (Distance braking_lap)))
   \<and> get_corner_analysis braking_lap = Inr braking_lap_corners
   \<and> (\<exists>cs. get_corner_analysis braking_lap = Inr cs
         \<and> sorted_wrt (<) (map apex_distance cs)
         \<and> map cornerNumber cs = [1 ..< Suc (length cs)])"
proof -
  obtain sp di br th where h:
    "Speed braking_lap = Some sp" "Distance braking_lap = Some di"
    "Brake braking_lap = Some br" "Throttle braking_lap = Some th"
    "length di = length sp" "length br = length sp" "length th = length sp"
    by (simp add: braking_lap_def)
  have "sorted di" using braking_lap_sorted h(2) by (simp add: column_def)
  from corners_increasing_and_numbered [OF h this] braking_lap_sorted braking_lap_result
  show ?thesis by blast
qed

section \<open>Brake-zone detector: the zones are the long closed runs\<close>

text \<open>\<open>brake_runs\<close> lists exactly the maximal runs, in scan order.\<close>

lemma is_brake_run_Cons_low:
  assumes "x \<le> 10"
  shows "is_brake_run (x # xs) a b \<longleftrightarrow> 1 \<le> a \<and> is_brake_run xs (a - 1) (b - 1)"
proof (cases a)
  case 0
  then show ?thesis using assms by (auto simp: is_brake_run_def)
next
  case (Suc a')
  show ?thesis
  proof (cases b)
    case 0
    then show ?thesis by (simp add: is_brake_run_def)
  next
    case (Suc b')
    have all: "(\<forall>j. Suc a' \<le> j \<and> j < Suc b' \<longrightarrow> (x # xs) ! j > 10) \<longleftrightarrow>
               (\<forall>j. a' \<le> j \<and> j < b' \<longrightarrow> xs ! j > 10)"
    proof
      assume l: "\<forall>j. Suc a' \<le> j \<and> j < Suc b' \<longrightarrow> (x # xs) ! j > 10"
      show "\<forall>j. a' \<le> j \<and> j < b' \<longrightarrow> xs ! j > 10"
      proof (intro allI impI)
        fix j assume "a' \<le> j \<and> j < b'"
        then have "(x # xs) ! Suc j > 10" using l by (metis Suc_le_mono Suc_less_eq)
        then show "xs ! j > 10" by simp
      qed
    next
      assume r: "\<forall>j. a' \<le> j \<and> j < b' \<longrightarrow> xs ! j > 10"
      show "\<forall>j. Suc a' \<le> j \<and> j < Suc b' \<longrightarrow> (x # xs) ! j > 10"
      proof (intro allI impI)
        fix j assume j: "Suc a' \<le> j \<and> j < Suc b'"
        then obtain j' where "j = Suc j'" by (cases j) auto
        with j r show "(x # xs) ! j > 10" by simp
      qed
    qed
    have start: "(x # xs) ! (Suc a' - 1) \<le> 10 \<longleftrightarrow> (a' = 0 \<or> xs ! (a' - 1) \<le> 10)"
      using assms by (cases a') auto
    show ?thesis
      unfolding is_brake_run_def \<open>a = Suc a'\<close> \<open>b = Suc b'\<close> all
      using start by auto
  qed
qed

lemma is_brake_run_append_high:
  assumes ys: "ys \<noteq> []" "\<forall>y\<in>set ys. y > 10"
    and zs: "zs = [] \<or> zs ! 0 \<le> 10"
  shows "is_brake_run (ys @ zs) a b \<longleftrightarrow>
           (a = 0 \<and> b = length ys) \<or>
           (length ys \<le> a \<and> is_brake_run zs (a - length ys) (b - length ys))"
proof -
  let ?n = "length ys" and ?L = "ys @ zs"
  have n: "0 < ?n" using ys by simp
  have hi: "?L ! j > 10" if "j < ?n" for j using that ys by (simp add: nth_append)
  have sh: "?L ! j = zs ! (j - ?n)" if "?n \<le> j" for j using that by (simp add: nth_append)
  have lo: "?L ! ?n \<le> 10" if "zs \<noteq> []" using that zs by (simp add: nth_append)
  show ?thesis
  proof
    assume r: "is_brake_run ?L a b"
    then have ab: "a < b" and bl: "b \<le> ?n + length zs"
      and al: "\<And>j. a \<le> j \<Longrightarrow> j < b \<Longrightarrow> ?L ! j > 10"
      and st: "a = 0 \<or> ?L ! (a - 1) \<le> 10"
      and en: "b = ?n + length zs \<or> ?L ! b \<le> 10"
      by (auto simp: is_brake_run_def)
    show "(a = 0 \<and> b = ?n) \<or> (?n \<le> a \<and> is_brake_run zs (a - ?n) (b - ?n))"
    proof (cases "a < ?n")
      case True
      have a0: "a = 0"
      proof (rule ccontr)
        assume "a \<noteq> 0"
        then have "?L ! (a - 1) \<le> 10" using st by simp
        moreover have "?L ! (a - 1) > 10" using True by (intro hi) simp
        ultimately show False by simp
      qed
      have "\<not> ?n < b"
      proof
        assume nb: "?n < b"
        then have "zs \<noteq> []" using bl by auto
        from lo [OF this] al [of ?n] a0 nb show False by simp
      qed
      moreover have "\<not> b < ?n"
      proof
        assume bn: "b < ?n"
        then have "?L ! b \<le> 10" using en by simp
        with hi [OF bn] show False by simp
      qed
      ultimately show ?thesis using a0 by simp
    next
      case False
      then have na: "?n \<le> a" by simp
      have an: "a \<noteq> ?n"
      proof
        assume "a = ?n"
        then have "?L ! (a - 1) \<le> 10" using st n by simp
        moreover have "?L ! (a - 1) > 10" using \<open>a = ?n\<close> n by (intro hi) simp
        ultimately show False by simp
      qed
      have 1: "a - ?n < b - ?n" using ab na by simp
      have 2: "b - ?n \<le> length zs" using bl by simp
      have 3: "zs ! j > 10" if "a - ?n \<le> j" "j < b - ?n" for j
        using al [of "j + ?n"] sh [of "j + ?n"] that by simp
      have 4: "a - ?n = 0 \<or> zs ! (a - ?n - 1) \<le> 10"
        using st sh [of "a - 1"] na an n by (simp add: diff_commute)
      have 5: "b - ?n = length zs \<or> zs ! (b - ?n) \<le> 10"
        using en sh [of b] na ab by auto
      from 1 2 3 4 5 na show ?thesis by (simp add: is_brake_run_def)
    qed
  next
    assume "(a = 0 \<and> b = ?n) \<or> (?n \<le> a \<and> is_brake_run zs (a - ?n) (b - ?n))"
    then show "is_brake_run ?L a b"
    proof
      assume h: "a = 0 \<and> b = ?n"
      have "?n = ?n + length zs \<or> ?L ! ?n \<le> 10" using lo by (cases "zs = []") auto
      with h n hi show ?thesis by (simp add: is_brake_run_def)
    next
      assume h: "?n \<le> a \<and> is_brake_run zs (a - ?n) (b - ?n)"
      then have na: "?n \<le> a" and ab: "a - ?n < b - ?n" and bl: "b - ?n \<le> length zs"
        and al: "\<And>j. a - ?n \<le> j \<Longrightarrow> j < b - ?n \<Longrightarrow> zs ! j > 10"
        and st: "a - ?n = 0 \<or> zs ! (a - ?n - 1) \<le> 10"
        and en: "b - ?n = length zs \<or> zs ! (b - ?n) \<le> 10"
        by (auto simp: is_brake_run_def)
      have zne: "zs \<noteq> []" using ab bl by auto
      have an: "a - ?n \<noteq> 0"
      proof
        assume z: "a - ?n = 0"
        then have "zs ! 0 > 10" using al [of 0] ab by simp
        with zs zne show False by simp
      qed
      have 1: "a < b" using ab by simp
      have 2: "b \<le> length ?L" using bl ab by simp
      have 3: "?L ! j > 10" if "a \<le> j" "j < b" for j
        using al [of "j - ?n"] sh [of j] that na by simp
      have 4: "?L ! (a - 1) \<le> 10"
        using st an sh [of "a - 1"] na by (simp add: diff_commute)
      have 5: "b = length ?L \<or> ?L ! b \<le> 10"
        using en sh [of b] ab by auto
      from 1 2 3 4 5 show ?thesis by (simp add: is_brake_run_def)
    qed
  qed
qed

lemma brake_runs_from_iff:
  "(s, e) \<in> set (brake_runs_from k ys) \<longleftrightarrow> k \<le> s \<and> is_brake_run ys (s - k) (e - k)"
proof (induction k ys arbitrary: s e rule: brake_runs_from.induct)
  case (1 k)
  show ?case by (simp add: is_brake_run_def)
next
  case (2 k x xs)
  let ?tw = "takeWhile (\<lambda>y. y > 10) xs"
  let ?dw = "dropWhile (\<lambda>y. y > 10) xs"
  show ?case
  proof (cases "x > 10")
    case True
    have ys: "x # ?tw \<noteq> []" "\<forall>y\<in>set (x # ?tw). y > 10"
      using True by (auto dest: set_takeWhileD)
    have zs: "?dw = [] \<or> ?dw ! 0 \<le> 10"
      using hd_dropWhile [of "\<lambda>y. y > 10" xs] by (cases "?dw = []") (auto simp: hd_conv_nth not_less)
    have split: "x # xs = (x # ?tw) @ ?dw" by simp
    have run: "is_brake_run (x # xs) a b \<longleftrightarrow>
        (a = 0 \<and> b = length (x # ?tw)) \<or>
        (length (x # ?tw) \<le> a \<and> is_brake_run ?dw (a - length (x # ?tw)) (b - length (x # ?tw)))"
      for a b
      by (subst split) (rule is_brake_run_append_high [OF ys zs])
    have IH: "(s, e) \<in> set (brake_runs_from (k + 1 + length ?tw) ?dw) \<longleftrightarrow>
        k + 1 + length ?tw \<le> s \<and>
        is_brake_run ?dw (s - (k + 1 + length ?tw)) (e - (k + 1 + length ?tw))"
      by (rule "2.IH"(1) [OF True refl])
    have e_le: "k < e" if "is_brake_run ys' (s - k) (e - k)" for ys'
    proof -
      from that have "s - k < e - k" by (simp add: is_brake_run_def)
      then show ?thesis by arith
    qed
    show ?thesis
    proof
      assume "(s, e) \<in> set (brake_runs_from k (x # xs))"
      then consider "s = k" "e = k + 1 + length ?tw"
        | "(s, e) \<in> set (brake_runs_from (k + 1 + length ?tw) ?dw)"
        using True by (auto simp: Let_def)
      then show "k \<le> s \<and> is_brake_run (x # xs) (s - k) (e - k)"
      proof cases
        case 1
        then show ?thesis by (simp add: run)
      next
        case 2
        with IH have "k + 1 + length ?tw \<le> s"
          "is_brake_run ?dw (s - (k + 1 + length ?tw)) (e - (k + 1 + length ?tw))" by auto
        then show ?thesis by (simp add: run diff_diff_eq [symmetric] add.commute)
      qed
    next
      assume h: "k \<le> s \<and> is_brake_run (x # xs) (s - k) (e - k)"
      then have ke: "k < e" using e_le by blast
      from h run [of "s - k" "e - k"]
      consider "s - k = 0" "e - k = length (x # ?tw)"
        | "length (x # ?tw) \<le> s - k"
          "is_brake_run ?dw (s - k - length (x # ?tw)) (e - k - length (x # ?tw))"
        by auto
      then show "(s, e) \<in> set (brake_runs_from k (x # xs))"
      proof cases
        case 1
        with h ke have "s = k" "e = k + 1 + length ?tw" by auto
        then show ?thesis using True by (simp add: Let_def)
      next
        case 2
        then have "k + 1 + length ?tw \<le> s" using h by simp
        moreover have "s - k - length (x # ?tw) = s - (k + 1 + length ?tw)"
          "e - k - length (x # ?tw) = e - (k + 1 + length ?tw)" by simp_all
        ultimately have "(s, e) \<in> set (brake_runs_from (k + 1 + length ?tw) ?dw)"
          using IH 2(2) by simp
        then show ?thesis using True by (simp add: Let_def)
      qed
    qed
  next
    case False
    then have x: "x \<le> 10" by simp
    have "(s, e) \<in> set (brake_runs_from k (x # xs)) \<longleftrightarrow>
          (s, e) \<in> set (brake_runs_from (k + 1) xs)" using False by simp
    also have "\<dots> \<longleftrightarrow> k + 1 \<le> s \<and> is_brake_run xs (s - (k + 1)) (e - (k + 1))"
      by (rule "2.IH"(2) [OF False])
    also have "\<dots> \<longleftrightarrow> k \<le> s \<and> is_brake_run (x # xs) (s - k) (e - k)"
      by (auto simp: is_brake_run_Cons_low [OF x])
    finally show ?thesis .
  qed
qed

lemma brake_runs_maximal:
  "(s, e) \<in> set (brake_runs xs) \<longleftrightarrow> is_brake_run xs s e"
  by (simp add: brake_runs_def brake_runs_from_iff)

lemma brake_runs_from_lower: "(s, e) \<in> set (brake_runs_from k ys) \<Longrightarrow> k \<le> s"
  by (simp add: brake_runs_from_iff)

lemma brake_runs_from_scan_order:
  "sorted_wrt (\<lambda>a b. snd a \<le> fst b) (brake_runs_from k ys)"
proof (induction k ys rule: brake_runs_from.induct)
  case (1 k)
  show ?case by simp
next
  case (2 k x xs)
  show ?case
  proof (cases "x > 10")
    case True
    with "2.IH"(1) [OF True refl] show ?thesis
      by (auto simp: Let_def dest: brake_runs_from_lower)
  next
    case False
    with "2.IH"(2) [OF False] show ?thesis by simp
  qed
qed

lemma brake_runs_scan_order: "sorted_wrt (\<lambda>a b. snd a \<le> fst b) (brake_runs xs)"
  by (simp add: brake_runs_def brake_runs_from_scan_order)

text \<open>The scan of the source against the runs.\<close>

lemma zone_record_spec:
  assumes "s < i" "i \<le> len brake" "len brake \<le> len distance"
  shows "zone_record brake speed distance s i =
           Inr (spec_zone (items brake) (items speed) (items distance) (s, i))"
proof -
  have "s < len distance" "i - 1 < len distance" using assms by simp_all
  moreover have "length (slice brake s i) = i - s" using assms by (simp add: slice_def len_def)
  ultimately show ?thesis
    by (simp add: zone_record_def spec_zone_def getitem_def Let_def)
       (simp add: slice_def)
qed

lemma brake_loop_runs:
  fixes brake speed distance :: series and xs :: "rat list"
  defines "C \<equiv> (\<lambda>r. snd r - fst r > 5 \<and> snd r < length (items brake))"
  defines "Z \<equiv> spec_zone (items brake) (items speed) (items distance)"
  assumes d: "len brake \<le> len distance" and xs_def: "xs = items brake"
  shows "k \<le> length xs \<Longrightarrow>
     brake_loop brake speed distance [k ..< length xs] zs False z =
       Inr (zs @ map Z (filter C (brake_runs_from k (drop k xs))))
   \<and> (\<forall>s < k.
       brake_loop brake speed distance [k ..< length xs] zs True s =
       Inr (zs @ map Z (filter C
          ((s, k + length (takeWhile (\<lambda>y. y > 10) (drop k xs)))
           # brake_runs_from (k + length (takeWhile (\<lambda>y. y > 10) (drop k xs)))
               (dropWhile (\<lambda>y. y > 10) (drop k xs))))))"
proof (induction "length xs - k" arbitrary: k zs z)
  case 0
  then have "k = length xs" by simp
  then show ?case by (simp add: C_def xs_def)
next
  case (Suc m)
  then have lt: "k < length xs" by simp
  then have upt: "[k ..< length xs] = k # [Suc k ..< length xs]" by (simp add: upt_conv_Cons)
  have drop: "drop k xs = xs ! k # drop (Suc k) xs" using lt by (simp add: Cons_nth_drop_Suc)
  have m: "m = length xs - Suc k" using Suc(2) by simp
  have le: "Suc k \<le> length xs" using lt by simp
  note IH = Suc(1) [OF m le]
  let ?tw = "takeWhile (\<lambda>y. y > 10) (drop (Suc k) xs)"
  let ?dw = "dropWhile (\<lambda>y. y > 10) (drop (Suc k) xs)"
  show ?case
  proof (cases "xs ! k > 10")
    case True
    have A: "brake_loop brake speed distance [k ..< length xs] zs False z =
        Inr (zs @ map Z (filter C (brake_runs_from k (drop k xs))))"
    proof -
      have "brake_loop brake speed distance [k ..< length xs] zs False z =
            brake_loop brake speed distance [Suc k ..< length xs] zs True k"
        using True by (simp add: upt xs_def [symmetric])
      also have "\<dots> = Inr (zs @ map Z (filter C
          ((k, Suc k + length ?tw) # brake_runs_from (Suc k + length ?tw) ?dw)))"
        using IH [of zs z] by simp
      also have "(k, Suc k + length ?tw) # brake_runs_from (Suc k + length ?tw) ?dw =
            brake_runs_from k (drop k xs)"
        using True by (simp add: drop Let_def)
      finally show ?thesis .
    qed
    have B: "brake_loop brake speed distance [k ..< length xs] zs True s =
       Inr (zs @ map Z (filter C
          ((s, k + length (takeWhile (\<lambda>y. y > 10) (drop k xs)))
           # brake_runs_from (k + length (takeWhile (\<lambda>y. y > 10) (drop k xs)))
               (dropWhile (\<lambda>y. y > 10) (drop k xs)))))" if "s < k" for s
    proof -
      have "brake_loop brake speed distance [k ..< length xs] zs True s =
            brake_loop brake speed distance [Suc k ..< length xs] zs True s"
        using True by (simp add: upt xs_def [symmetric])
      also have "\<dots> = Inr (zs @ map Z (filter C
          ((s, Suc k + length ?tw) # brake_runs_from (Suc k + length ?tw) ?dw)))"
        using IH [of zs z] that by simp
      finally show ?thesis using True by (simp add: drop)
    qed
    from A B show ?thesis by blast
  next
    case False
    then have x: "xs ! k \<le> 10" by simp
    have A: "brake_loop brake speed distance [k ..< length xs] zs False z =
        Inr (zs @ map Z (filter C (brake_runs_from k (drop k xs))))"
    proof -
      have "brake_loop brake speed distance [k ..< length xs] zs False z =
            brake_loop brake speed distance [Suc k ..< length xs] zs False z"
        using False by (simp add: upt xs_def [symmetric])
      also have "\<dots> = Inr (zs @ map Z (filter C (brake_runs_from (Suc k) (drop (Suc k) xs))))"
        using IH [of zs z] by simp
      finally show ?thesis using False by (simp add: drop)
    qed
    have B: "brake_loop brake speed distance [k ..< length xs] zs True s =
       Inr (zs @ map Z (filter C
          ((s, k + length (takeWhile (\<lambda>y. y > 10) (drop k xs)))
           # brake_runs_from (k + length (takeWhile (\<lambda>y. y > 10) (drop k xs)))
               (dropWhile (\<lambda>y. y > 10) (drop k xs)))))" if "s < k" for s
    proof -
      have len_slice: "length (slice brake s k) = k - s"
        using lt that by (simp add: slice_def xs_def)
      have spec: "(s, k + length (takeWhile (\<lambda>y. y > 10) (drop k xs)))
           # brake_runs_from (k + length (takeWhile (\<lambda>y. y > 10) (drop k xs)))
               (dropWhile (\<lambda>y. y > 10) (drop k xs))
            = (s, k) # brake_runs_from (Suc k) (drop (Suc k) xs)"
        using False by (simp add: drop)
      show ?thesis
      proof (cases "k - s > 5")
        case True
        have zr: "zone_record brake speed distance s k = Inr (Z (s, k))"
          unfolding Z_def using that lt d by (intro zone_record_spec) (simp_all add: xs_def len_def)
        have "brake_loop brake speed distance [k ..< length xs] zs True s =
            brake_loop brake speed distance [Suc k ..< length xs] (zs @ [Z (s, k)]) False s"
          using x True len_slice zr by (simp add: upt xs_def [symmetric])
        also have "\<dots> = Inr ((zs @ [Z (s, k)]) @
             map Z (filter C (brake_runs_from (Suc k) (drop (Suc k) xs))))"
          using IH [of "zs @ [Z (s, k)]" s] by simp
        finally show ?thesis unfolding spec using True lt by (simp add: C_def xs_def)
      next
        case F: False
        have "brake_loop brake speed distance [k ..< length xs] zs True s =
            brake_loop brake speed distance [Suc k ..< length xs] zs False s"
          using x F len_slice by (simp add: upt xs_def [symmetric])
        also have "\<dots> = Inr (zs @ map Z (filter C (brake_runs_from (Suc k) (drop (Suc k) xs))))"
          using IH [of zs s] by simp
        finally show ?thesis unfolding spec using F by (simp add: C_def)
      qed
    qed
    from A B show ?thesis by blast
  qed
qed

lemma brake_runs_from_bounds:
  "(s, e) \<in> set (brake_runs_from k ys) \<Longrightarrow>
     k \<le> s \<and> s < e \<and> e \<le> k + length ys \<and> (e = k + length ys \<longrightarrow> ys \<noteq> [] \<and> last ys > 10)"
proof (induction k ys arbitrary: s e rule: brake_runs_from.induct)
  case (1 k)
  then show ?case by simp
next
  case (2 k x xs)
  let ?tw = "takeWhile (\<lambda>y. y > 10) xs"
  let ?dw = "dropWhile (\<lambda>y. y > 10) xs"
  have split: "xs = ?tw @ ?dw" by simp
  have len: "length ?tw + length ?dw = length xs"
    by (metis length_append takeWhile_dropWhile_id)
  show ?case
  proof (cases "x > 10")
    case True
    from "2.prems" True
    consider (hd) "s = k" "e = k + 1 + length ?tw"
      | (tl) "(s, e) \<in> set (brake_runs_from (k + 1 + length ?tw) ?dw)"
      by (auto simp: Let_def)
    then show ?thesis
    proof cases
      case hd
      have "last (x # xs) > 10" if "length ?tw = length xs"
      proof -
        from that len have "?dw = []" by simp
        then have "\<forall>y\<in>set xs. y > 10" by (simp add: dropWhile_eq_Nil_conv)
        with True show ?thesis by (cases xs) (auto simp: last_in_set)
      qed
      with hd len show ?thesis by auto
    next
      case tl
      from "2.IH"(1) [OF True refl tl]
      have IH: "k + 1 + length ?tw \<le> s" "s < e" "e \<le> k + 1 + length ?tw + length ?dw"
        "e = k + 1 + length ?tw + length ?dw \<longrightarrow> ?dw \<noteq> [] \<and> last ?dw > 10"
        by auto
      have "last (x # xs) = last ?dw" if "?dw \<noteq> []"
        using that by (metis last_ConsR last_appendR split append_is_Nil_conv)
      with IH len show ?thesis by auto
    qed
  next
    case False
    with "2.prems" have "(s, e) \<in> set (brake_runs_from (k + 1) xs)" by simp
    from "2.IH"(2) [OF False this] show ?thesis
      by auto
  qed
qed

lemma closed_runs_when_lap_ends_off_brake:
  assumes "bs = [] \<or> last bs \<le> 10"
  shows "reported_runs bs = filter (\<lambda>r. snd r - fst r > 5) (brake_runs bs)"
proof -
  have "snd r < length bs" if "r \<in> set (brake_runs bs)" for r
  proof -
    from that have "(fst r, snd r) \<in> set (brake_runs_from 0 bs)" by (simp add: brake_runs_def)
    from brake_runs_from_bounds [OF this] assms show ?thesis
      by (cases "snd r = length bs") auto
  qed
  then show ?thesis unfolding reported_runs_def by (intro filter_cong) auto
qed

lemma brake_zones_exact:
  assumes "Brake tel = Some bs" "Distance tel = Some ds" "length bs \<le> length ds"
  shows "\<exists>r. get_brake_analysis tel = Inr r \<and>
           brakeZones r =
             map (spec_zone bs (items (column (Speed tel))) ds) (take 10 (reported_runs bs))"
proof -
  have d: "len (NdArray bs) \<le> len (NdArray ds)" using assms by (simp add: len_def)
  have "brake_loop (NdArray bs) (column (Speed tel)) (NdArray ds) [0 ..< length bs] [] False 0 =
     Inr ([] @ map (spec_zone (items (NdArray bs)) (items (column (Speed tel))) (items (NdArray ds)))
        (filter (\<lambda>r. snd r - fst r > 5 \<and> snd r < length (items (NdArray bs)))
           (brake_runs_from 0 (drop 0 bs))))"
    using brake_loop_runs [OF d, of bs 0 "column (Speed tel)" "[]" 0] by simp
  then show ?thesis
    using assms
    by (simp add: get_brake_analysis_def column_def len_def Let_def reported_runs_def
        brake_runs_def take_map)
qed

text \<open>
  C5. For a lap with brake and distance channels of one length whose brake
  series does not end inside a run, the reported zones are the zone records of
  the maximal runs of brake above 10 that are more than 5 samples long, in scan
  order, capped at the first 10; so there are at most 10 zones and each lasts
  more than 5 samples.
\<close>

theorem brake_zones_are_long_closed_runs:
  assumes "Brake tel = Some bs" and "Distance tel = Some ds" and "length ds = length bs"
    and "bs = [] \<or> last bs \<le> 10"
  shows "\<exists>r. get_brake_analysis tel = Inr r
           \<and> brakeZones r =
               map (spec_zone bs (items (column (Speed tel))) ds)
                 (take 10 (filter (\<lambda>r. snd r - fst r > 5) (brake_runs bs)))
           \<and> length (brakeZones r) \<le> 10
           \<and> (\<forall>z\<in>set (brakeZones r). duration z > 5 / 100)"
proof -
  from brake_zones_exact [OF assms(1,2)] assms(3) obtain r where
    r: "get_brake_analysis tel = Inr r"
    and z: "brakeZones r =
      map (spec_zone bs (items (column (Speed tel))) ds) (take 10 (reported_runs bs))"
    by auto
  have eq: "reported_runs bs = filter (\<lambda>r. snd r - fst r > 5) (brake_runs bs)"
    by (rule closed_runs_when_lap_ends_off_brake [OF assms(4)])
  have "duration z > 5 / 100" if "z \<in> set (brakeZones r)" for z
  proof -
    from that z eq obtain p where "p \<in> set (filter (\<lambda>r. snd r - fst r > 5) (brake_runs bs))"
      and "z = spec_zone bs (items (column (Speed tel))) ds p"
      by (auto dest: in_set_takeD)
    then show ?thesis by (simp add: spec_zone_def Let_def)
  qed
  with r z eq show ?thesis by auto
qed

theorem brake_zones_are_long_closed_runs_witness:
  "Brake long_zone_lap = Some [0, 20, 30, 40, 50, 40, 30, 0]
   \<and> Distance long_zone_lap = Some [0, 1, 2, 3, 4, 5, 6, 7]
   \<and> length [0, 1, 2, 3, 4, 5, 6, 7 :: rat] = length [0, 20, 30, 40, 50, 40, 30, 0 :: rat]
   \<and> last [0, 20, 30, 40, 50, 40, 30, 0 :: rat] \<le> 10
   \<and> (\<exists>r. get_brake_analysis long_zone_lap = Inr r
          \<and> brakeZones r =
               map (spec_zone [0, 20, 30, 40, 50, 40, 30, 0]
                      (items (column (Speed long_zone_lap))) [0, 1, 2, 3, 4, 5, 6, 7])
                 (take 10 (filter (\<lambda>r. snd r - fst r > 5)
                    (brake_runs [0, 20, 30, 40, 50, 40, 30, 0])))
          \<and> length (brakeZones r) \<le> 10
          \<and> (\<forall>z\<in>set (brakeZones r). duration z > 5 / 100))"
proof -
  have h1: "Brake long_zone_lap = Some [0, 20, 30, 40, 50, 40, 30, 0]"
    and h2: "Distance long_zone_lap = Some [0, 1, 2, 3, 4, 5, 6, 7]"
    by (simp_all add: long_zone_lap_def)
  have h3: "length [0, 1, 2, 3, 4, 5, 6, 7 :: rat] = length [0, 20, 30, 40, 50, 40, 30, 0 :: rat]"
    by simp
  have h4: "last [0, 20, 30, 40, 50, 40, 30, 0 :: rat] \<le> 10" by simp
  from brake_zones_are_long_closed_runs [OF h1 h2 h3 disjI2 [OF h4]] h1 h2 h3 h4
  show ?thesis by blast
qed

text \<open>A run of exactly five samples is a run of at least 5 samples, and is not reported.\<close>

theorem five_sample_zone_counterexample:
  "map_sum id brakeZones (get_brake_analysis short_zone_lap) = Inr []
   \<and> runs_of_at_least_five [0, 20, 20, 20, 20, 20, 0] = [(1, 6)]"
  by code_simp

end
